theory Spec2Isabelle
  imports Main "HOL-Library.AList"
begin

section \<open>Python values, exceptions and strings\<close>

text \<open>
  The values that flow through the configuration code. A Python \<open>str\<close> is a
  \<open>string\<close> (a list of characters with code points below 256); a \<open>dict\<close> keeps
  its insertion order, so it is an association list with distinct keys in the order
  of first insertion.
\<close>

datatype pyval =
    PNone
  | PBool bool
  | PInt int
  | PStr string
  | PList "pyval list"
  | PDict "(string \<times> pyval) list"

type_synonym pydict = "(string \<times> pyval) list"

text \<open>
  The exceptions the modelled code can raise. \<open>JSONDecodeError\<close> is a subclass of
  \<open>ValueError\<close> and is represented by it. \<open>NeverReturns\<close> is not a Python
  exception: it stands for a blocking call of a collaborator that does not come back.
\<close>

datatype exn =
    AttributeError string
  | KeyError string
  | TypeError
  | ValueError
  | IndexError
  | RuntimeError string
  | OSError
  | SystemExit
  | NeverReturns

definition newline :: char where
  "newline = CHR 0x0A"

text \<open>\<open>str.isspace\<close> of Python 3 on the code points below 256.\<close>

definition py_isspace :: "char \<Rightarrow> bool" where
  "py_isspace c = (c \<in> {CHR 0x09, CHR 0x0A, CHR 0x0B, CHR 0x0C, CHR 0x0D,
                          CHR 0x1C, CHR 0x1D, CHR 0x1E, CHR 0x1F, CHR 0x20,
                          CHR 0x85, CHR 0xA0})"

text \<open>\<open>s.strip()\<close>: whitespace removed at both ends.\<close>

definition py_strip :: "string \<Rightarrow> string" where
  "py_strip s = rev (dropWhile py_isspace (rev (dropWhile py_isspace s)))"

text \<open>
  \<open>s.lower()\<close> on the code points below 256: the ASCII capitals and the Latin-1
  capitals (\<open>0xC0\<close> to \<open>0xDE\<close> without the multiplication sign \<open>0xD7\<close>) move up
  by 32.
\<close>

definition lower_char :: "char \<Rightarrow> char" where
  "lower_char c =
     (if ((65::nat) \<le> of_char c \<and> (of_char c :: nat) \<le> 90) \<or>
         ((192::nat) \<le> of_char c \<and> (of_char c :: nat) \<le> 222 \<and> (of_char c :: nat) \<noteq> 215)
      then char_of ((of_char c :: nat) + 32) else c)"

definition py_lower :: "string \<Rightarrow> string" where
  "py_lower s = map lower_char s"

text \<open>\<open>s.replace(a, b)\<close> for single characters \<open>a\<close> and \<open>b\<close>.\<close>

definition replace_char :: "char \<Rightarrow> char \<Rightarrow> string \<Rightarrow> string" where
  "replace_char a b s = map (\<lambda>c. if c = a then b else c) s"

text \<open>
  \<open>s.split(sep)\<close> for a separator string: the pieces between the non-overlapping
  occurrences of \<open>sep\<close>, found from the left. \<open>split_scan sep acc s\<close> scans \<open>s\<close>
  with the current piece \<open>acc\<close> (reversed). An empty separator raises
  \<open>ValueError\<close> in Python.
\<close>

function split_scan :: "string \<Rightarrow> string \<Rightarrow> string \<Rightarrow> string list" where
  "split_scan sep acc [] = [rev acc]"
| "split_scan sep acc (c # cs) =
     (if sep \<noteq> [] \<and> take (length sep) (c # cs) = sep
      then rev acc # split_scan sep [] (drop (length sep) (c # cs))
      else split_scan sep (c # acc) cs)"
  by pat_completeness auto
termination
  by (relation "measure (\<lambda>(sep, acc, s). length s)") auto

definition py_split :: "string \<Rightarrow> string \<Rightarrow> exn + string list" where
  "py_split sep s = (if sep = [] then Inl ValueError else Inr (split_scan sep [] s))"

text \<open>\<open>sub in s\<close> for strings.\<close>

definition py_contains :: "string \<Rightarrow> string \<Rightarrow> bool" where
  "py_contains sub s = list_ex (\<lambda>i. take (length sub) (drop i s) = sub) [0..<Suc (length s)]"

text \<open>
  Dictionaries: \<open>d.get(k)\<close> is \<open>map_of d k\<close>, \<open>d[k] = v\<close> is
  \<open>AList.update k v d\<close> (an existing key keeps its place, a new one goes last),
  \<open>del d[k]\<close> is \<open>AList.delete k d\<close>, and \<open>d.update(e)\<close> stores the items of
  \<open>e\<close> in their order.
\<close>

definition dict_update :: "pydict \<Rightarrow> pydict \<Rightarrow> pydict" where
  "dict_update d e = fold (\<lambda>(k, v). AList.update k v) e d"

definition dict_get :: "pydict \<Rightarrow> string \<Rightarrow> pyval \<Rightarrow> pyval" where
  "dict_get d k dflt = (case map_of d k of Some v \<Rightarrow> v | None \<Rightarrow> dflt)"

text \<open>Truth value of an object, as \<open>if x:\<close> and \<open>x or y\<close> test it.\<close>

fun py_truthy :: "pyval \<Rightarrow> bool" where
  "py_truthy PNone = False"
| "py_truthy (PBool b) = b"
| "py_truthy (PInt n) = (n \<noteq> 0)"
| "py_truthy (PStr s) = (s \<noteq> [])"
| "py_truthy (PList xs) = (xs \<noteq> [])"
| "py_truthy (PDict d) = (d \<noteq> [])"

section \<open>Regular expressions of the \<open>re\<close> module\<close>

text \<open>
  The fragment of Python's regular expressions that the two source files use, with
  the backtracking semantics of the \<open>re\<close> engine: \<open>matches r st\<close> lists every
  way \<open>r\<close> can match at the state \<open>st\<close>, in the order in which the engine tries
  them (alternatives left to right, greedy repetitions longest first). The first
  element is the match Python reports. A state is the groups captured so far, the
  position in the subject and the rest of the subject.
\<close>

datatype regex =
    RLit string                   \<comment> \<open>literal text\<close>
  | RPlus "char \<Rightarrow> bool"          \<comment> \<open>\<open>[class]+\<close>, greedy\<close>
  | RStar "char \<Rightarrow> bool"          \<comment> \<open>\<open>[class]*\<close>, greedy\<close>
  | RSeq regex regex
  | RAlt regex regex
  | RGroup nat regex              \<comment> \<open>capturing group with its number\<close>
  | RNotAhead regex               \<comment> \<open>\<open>(?!...)\<close>\<close>
  | RBol                          \<comment> \<open>\<open>^\<close> without MULTILINE\<close>
  | REol                          \<comment> \<open>\<open>$\<close> without MULTILINE\<close>

type_synonym mstate = "(nat \<times> string) list \<times> nat \<times> string"

fun matches :: "regex \<Rightarrow> mstate \<Rightarrow> mstate list" where
  "matches (RLit w) (g, pos, s) =
     (if take (length w) s = w then [(g, pos + length w, drop (length w) s)] else [])"
| "matches (RPlus p) (g, pos, s) =
     map (\<lambda>k. (g, pos + k, drop k s)) (rev [1..<Suc (length (takeWhile p s))])"
| "matches (RStar p) (g, pos, s) =
     map (\<lambda>k. (g, pos + k, drop k s)) (rev [0..<Suc (length (takeWhile p s))])"
| "matches (RSeq a b) st = concat (map (matches b) (matches a st))"
| "matches (RAlt a b) st = matches a st @ matches b st"
| "matches (RGroup n a) (g, pos, s) =
     map (\<lambda>(g', pos', s'). ((n, take (pos' - pos) s) # g', pos', s')) (matches a (g, pos, s))"
| "matches (RNotAhead a) st = (if matches a st = [] then [st] else [])"
| "matches RBol (g, pos, s) = (if pos = 0 then [(g, pos, s)] else [])"
| "matches REol (g, pos, s) = (if s = [] \<or> s = [newline] then [(g, pos, s)] else [])"

text \<open>\<open>re.match\<close>: the first match at position 0, if any.\<close>

definition re_match :: "regex \<Rightarrow> string \<Rightarrow> mstate option" where
  "re_match r s = (case matches r ([], 0, s) of [] \<Rightarrow> None | m # _ \<Rightarrow> Some m)"

text \<open>\<open>re.search\<close>: the first match at the leftmost position that has one.\<close>

fun first_match :: "mstate list list \<Rightarrow> mstate option" where
  "first_match [] = None"
| "first_match ([] # rest) = first_match rest"
| "first_match ((m # _) # _) = Some m"

definition re_search :: "regex \<Rightarrow> string \<Rightarrow> mstate option" where
  "re_search r s = first_match (map (\<lambda>i. matches r ([], i, drop i s)) [0..<Suc (length s)])"

text \<open>\<open>m.group(n)\<close>: the text of group \<open>n\<close>, \<open>None\<close> when it took no part.\<close>

definition group :: "mstate \<Rightarrow> nat \<Rightarrow> string option" where
  "group m n = map_of (fst m) n"

section \<open>Environment indirection: \<open>TestCase.resolve_env_args\<close>\<close>






section \<open>Variable grammar: \<open>ValidationTemplates\<close>\<close>

definition is_alpha :: "char \<Rightarrow> bool" where
  "is_alpha c = (((65::nat) \<le> of_char c \<and> (of_char c :: nat) \<le> 90) \<or>
                 ((97::nat) \<le> of_char c \<and> (of_char c :: nat) \<le> 122))"

text \<open>\<open>\d\<close>: among the code points below 256 the decimal digits are \<open>0\<close> to \<open>9\<close>.\<close>

definition is_digit :: "char \<Rightarrow> bool" where
  "is_digit c = ((48::nat) \<le> of_char c \<and> (of_char c :: nat) \<le> 57)"

text \<open>The class \<open>[A-Za-z0-9_\.\-\[\]]\<close> of the variable name.\<close>

definition name_char :: "char \<Rightarrow> bool" where
  "name_char c = (is_alpha c \<or> is_digit c \<or> c \<in> {CHR ''_'', CHR ''.'', CHR ''-'', CHR ''['', CHR '']''})"

text \<open>The class \<open>[A-Za-z0-9_-]\<close> of a custom type.\<close>

definition custom_char :: "char \<Rightarrow> bool" where
  "custom_char c = (is_alpha c \<or> is_digit c \<or> c \<in> {CHR ''_'', CHR ''-''})"

text \<open>
  The custom type
  \<open>(?:(?!String)(?!Binary)(?!KeyValue)(?!TCEntity)(?!TCEnhancedEntity)[A-Za-z0-9_-]+)\<close>.
\<close>

definition custom_type :: regex where
  "custom_type =
     RSeq (RNotAhead (RLit ''String''))
    (RSeq (RNotAhead (RLit ''Binary''))
    (RSeq (RNotAhead (RLit ''KeyValue''))
    (RSeq (RNotAhead (RLit ''TCEntity''))
    (RSeq (RNotAhead (RLit ''TCEnhancedEntity''))
          (RPlus custom_char)))))"

text \<open>The alternatives of group 4, in the order of the pattern.\<close>

definition variable_type :: regex where
  "variable_type =
     RAlt (RLit ''StringArray'')
    (RAlt (RLit ''BinaryArray'')
    (RAlt (RLit ''KeyValueArray'')
    (RAlt (RLit ''TCEntityArray'')
    (RAlt (RLit ''TCEnhancedEntityArray'')
    (RAlt (RLit ''String'')
    (RAlt (RLit ''Binary'')
    (RAlt (RLit ''KeyValue'')
    (RAlt (RLit ''TCEntity'')
    (RAlt (RLit ''TCEnhancedEntity'')
          custom_type)))))))))"

text \<open>
  \<open>_variable_pattern\<close>:
  \<open>#([A-Za-z]+):([\d]+):([A-Za-z0-9_\.\-\[\]]+)!(StringArray|...|(?:...))\<close>.
\<close>

definition variable_pattern :: regex where
  "variable_pattern =
     RSeq (RLit ''#'')
    (RSeq (RGroup 1 (RPlus is_alpha))
    (RSeq (RLit '':'')
    (RSeq (RGroup 2 (RPlus is_digit))
    (RSeq (RLit '':'')
    (RSeq (RGroup 3 (RPlus name_char))
    (RSeq (RLit ''!'')
          (RGroup 4 variable_type)))))))"

text \<open>
  \<open>self._variable_match = re.compile(r'^{}$'.format(self._variable_pattern))\<close> and
  \<open>self._variable_parse = re.compile(self._variable_pattern)\<close>.
\<close>

definition variable_match :: regex where
  "variable_match = RSeq RBol (RSeq variable_pattern REol)"

definition variable_parse :: regex where
  "variable_parse = variable_pattern"

text \<open>
  \<open>_method_name(variable)\<close>. A \<open>None\<close> from \<open>re.search\<close> or from \<open>group\<close>
  would raise \<open>AttributeError\<close> at the method call on it.
\<close>

definition method_name :: "string option \<Rightarrow> exn + string option" where
  "method_name variable =
     (case variable of
        None \<Rightarrow> Inr None
      | Some v0 \<Rightarrow>
          (let v = py_strip v0 in
           case re_match variable_match v of
             None \<Rightarrow> Inr None
           | Some _ \<Rightarrow>
               (case re_search variable_parse v of
                  None \<Rightarrow> Inl (AttributeError ''group'')
                | Some var \<Rightarrow>
                    (case group var 3 of
                       None \<Rightarrow> Inl (AttributeError ''replace'')
                     | Some g3 \<Rightarrow>
                         (case group var 4 of
                            None \<Rightarrow> Inl (AttributeError ''lower'')
                          | Some g4 \<Rightarrow>
                              (let variable_name = py_lower (replace_char CHR ''.'' CHR ''_'' g3);
                                   variable_type = py_lower g4
                               in Inr (Some (variable_name @ ''_'' @ variable_type))))))))"

text \<open>
  The strings of the grammar, written without the pattern: the ten type keywords, or
  a custom type of class characters that starts with none of the five base keywords.
\<close>

definition type_keywords :: "string list" where
  "type_keywords =
     [''StringArray'', ''BinaryArray'', ''KeyValueArray'', ''TCEntityArray'',
      ''TCEnhancedEntityArray'', ''String'', ''Binary'', ''KeyValue'', ''TCEntity'',
      ''TCEnhancedEntity'']"

definition starts_with :: "string \<Rightarrow> string \<Rightarrow> bool" where
  "starts_with s w = (take (length w) s = w)"

definition is_custom_type :: "string \<Rightarrow> bool" where
  "is_custom_type ty =
     (ty \<noteq> [] \<and> list_all custom_char ty \<and>
      \<not> starts_with ty ''String'' \<and> \<not> starts_with ty ''Binary'' \<and>
      \<not> starts_with ty ''KeyValue'' \<and> \<not> starts_with ty ''TCEntity'' \<and>
      \<not> starts_with ty ''TCEnhancedEntity'')"

definition is_variable_type :: "string \<Rightarrow> bool" where
  "is_variable_type ty = (ty \<in> set type_keywords \<or> is_custom_type ty)"

definition variable_string :: "string \<Rightarrow> string \<Rightarrow> string \<Rightarrow> string \<Rightarrow> string" where
  "variable_string ns ident nm ty = ''#'' @ ns @ '':'' @ ident @ '':'' @ nm @ ''!'' @ ty"

definition well_formed :: "string \<Rightarrow> string \<Rightarrow> string \<Rightarrow> string \<Rightarrow> bool" where
  "well_formed ns ident nm ty =
     (ns \<noteq> [] \<and> list_all is_alpha ns \<and> ident \<noteq> [] \<and> list_all is_digit ident \<and>
      nm \<noteq> [] \<and> list_all name_char nm \<and> is_variable_type ty)"

section \<open>The inputs module: \<open>Inputs\<close>\<close>

subsection \<open>Collaborators and state\<close>

text \<open>
  What the run shows to the outside, in order: log lines, the calls of the token
  registrar, of the queue broker, of the HTTP session and of the logger. \<open>Enter\<close>
  marks the entry into a method of \<open>Inputs\<close>; it is emitted by
  \<open>register_token\<close>, \<open>_load_aot_params\<close> and \<open>_load_secure_params\<close>, whose order
  the temporal properties are about.
\<close>

datatype event =
    LogInfo string
  | LogError string
  | LogWarning string
  | Enter string
  | RegisterToken string pyval pyval
  | AotBlpop
  | SessionGet string
  | LoggerCall string "pyval list"

text \<open>The \<open>requests\<close> response, as far as \<open>_get_secure_params\<close> reads it.\<close>

record response =
  resp_ok :: bool
  resp_text :: string
  resp_reason :: string
  resp_json :: "exn + pyval"

text \<open>
  The collaborators of \<open>Inputs\<close>, which are not part of the three source files and
  are parameters of the model:
  \<^item> \<open>sys_argv\<close>: \<open>sys.argv\<close>;
  \<^item> \<open>parse_known_args\<close>: \<open>TcArgumentParser.parse_known_args(namespace=ns)\<close> on
    \<open>sys.argv\<close>, from the attributes of the namespace to its attributes after the
    call and the unknown arguments (\<open>argparse\<close> fills the namespace it is given and
    returns it), or \<open>SystemExit\<close>;
  \<^item> \<open>isfile\<close>, \<open>open_read\<close>: \<open>os.path.isfile\<close> and the text \<open>open(f, 'r')\<close> reads;
  \<^item> \<open>json_load\<close>: \<open>json.load\<close> on a text: the decoded object, or the
    \<open>ValueError\<close> of a malformed document. The configuration file holds a JSON
    object, so the result is a dictionary;
  \<^item> \<open>results_tc\<close>: lines 141 to 148 of \<open>_results_tc_args\<close> for a given
    \<open>tc_out_path\<close>: the text of the results file that is read and removed, \<open>None\<close>
    when there is no such file;
  \<^item> \<open>aot_blpop\<close>: the payload \<open>tcex.playbook.aot_blpop()\<close> returns
    (\<open>NeverReturns\<close> when the blocking pop never comes back);
  \<^item> \<open>session_get\<close>: \<open>tcex.session.get(path)\<close>;
  \<^item> \<open>params_dict\<close>, \<open>list_delimiter\<close>: \<open>tcex.ij.params_dict.get(arg)\<close> and
    \<open>tcex.ij.list_delimiter\<close> of the install.json descriptor;
  \<^item> \<open>to_bool\<close>: \<open>tcex.utils.to_bool\<close>;
  \<^item> \<open>playbook_read\<close>: \<open>tcex.playbook.read\<close>.
\<close>

record tcex =
  sys_argv :: "string list"
  parse_known_args :: "pydict \<Rightarrow> exn + pydict \<times> string list"
  isfile :: "string \<Rightarrow> bool"
  open_read :: "string \<Rightarrow> exn + string"
  json_load :: "string \<Rightarrow> exn + pydict"
  results_tc :: "pyval \<Rightarrow> exn + string option"
  aot_blpop :: "exn + pyval"
  session_get :: "string \<Rightarrow> exn + response"
  params_dict :: "string \<Rightarrow> pydict option"
  list_delimiter :: string
  to_bool :: "pyval \<Rightarrow> bool"
  playbook_read :: "string \<Rightarrow> exn + pyval"

text \<open>
  The state: a store of dictionary objects by address (the \<open>__dict__\<close> of the
  namespace \<open>self._default_args\<close> and the dictionaries of the caller live in it, so
  that a dictionary passed to a method is the caller's object), the fields of the
  \<open>Inputs\<close> object, and the events so far.
\<close>

record inputs =
  heap :: "nat \<Rightarrow> pydict"
  next_ref :: nat
  default_args :: nat
  default_args_resolved :: pydict
  parsed :: bool
  parsed_resolved :: bool
  unknown :: "string list"
  events :: "event list"

text \<open>
  A method is a function from the state to its outcome (the exception raised or the
  value returned) and the state it leaves behind: what was mutated before an
  exception stays mutated.
\<close>

type_synonym 'a prog = "inputs \<Rightarrow> (exn + 'a) \<times> inputs"

definition preturn :: "'a \<Rightarrow> 'a prog" where
  "preturn x = (\<lambda>s. (Inr x, s))"

definition praise :: "exn \<Rightarrow> 'a prog" where
  "praise e = (\<lambda>s. (Inl e, s))"

definition pbind :: "'a prog \<Rightarrow> ('a \<Rightarrow> 'b prog) \<Rightarrow> 'b prog" where
  "pbind m f = (\<lambda>s. case m s of (Inl e, s') \<Rightarrow> (Inl e, s') | (Inr x, s') \<Rightarrow> f x s')"

definition emit :: "event \<Rightarrow> unit prog" where
  "emit e = (\<lambda>s. (Inr (), s\<lparr>events := events s @ [e]\<rparr>))"

definition lift :: "exn + 'a \<Rightarrow> 'a prog" where
  "lift r = (\<lambda>s. (r, s))"

text \<open>\<open>self._default_args.name\<close> and \<open>setattr(self._default_args, name, v)\<close>.\<close>

definition namespace :: "inputs \<Rightarrow> pydict" where
  "namespace s = heap s (default_args s)"

definition get_arg :: "string \<Rightarrow> pyval prog" where
  "get_arg name = (\<lambda>s. case map_of (namespace s) name of
                          None \<Rightarrow> (Inl (AttributeError name), s)
                        | Some v \<Rightarrow> (Inr v, s))"

definition set_dict :: "nat \<Rightarrow> pydict \<Rightarrow> unit prog" where
  "set_dict a d = (\<lambda>s. (Inr (), s\<lparr>heap := (heap s)(a := d)\<rparr>))"

definition set_arg :: "string \<Rightarrow> pyval \<Rightarrow> unit prog" where
  "set_arg name v = (\<lambda>s. set_dict (default_args s) (AList.update name v (namespace s)) s)"

text \<open>A new dictionary object with the given items.\<close>

definition new_dict :: "pydict \<Rightarrow> nat prog" where
  "new_dict d = (\<lambda>s. (Inr (next_ref s),
                        s\<lparr>heap := (heap s)(next_ref s := d), next_ref := Suc (next_ref s)\<rparr>))"

text \<open>An argument that may or may not be a dictionary object.\<close>

datatype pyarg = DictRef nat | NonDict pyval

subsection \<open>Token registration and merging\<close>

text \<open>\<open>register_token\<close> (lines 260 to 266).\<close>

definition register_token :: "unit prog" where
  "register_token =
     pbind (emit (Enter ''register_token'')) (\<lambda>_.
     pbind (get_arg ''tc_token'') (\<lambda>tc_token.
       if tc_token \<noteq> PNone
       then pbind (get_arg ''tc_token_expires'') (\<lambda>tc_token_expires.
              emit (RegisterToken ''MainThread'' tc_token tc_token_expires))
       else preturn ()))"

text \<open>
  The loop of \<open>config\<close> (lines 224 to 226): for each key of the snapshot
  \<open>list(config_data)\<close>, delete it from \<open>config_data\<close> when \<open>'--' + key\<close> is an
  element of \<open>sys.argv\<close>.
\<close>

fun drop_argv_keys :: "string list \<Rightarrow> string list \<Rightarrow> pydict \<Rightarrow> pydict" where
  "drop_argv_keys argv [] d = d"
| "drop_argv_keys argv (key # keys) d =
     drop_argv_keys argv keys (if ''--'' @ key \<in> set argv then AList.delete key d else d)"

text \<open>\<open>config(config_data, preserve=True)\<close> (lines 219 to 232).\<close>

definition config :: "tcex \<Rightarrow> pyarg \<Rightarrow> bool \<Rightarrow> unit prog" where
  "config tc config_data preserve =
     (case config_data of
        DictRef a \<Rightarrow>
          pbind (if preserve
                 then (\<lambda>s. set_dict a (drop_argv_keys (sys_argv tc) (map fst (heap s a)) (heap s a)) s)
                 else preturn ()) (\<lambda>_.
          pbind (\<lambda>s. set_dict (default_args s) (dict_update (namespace s) (heap s a)) s) (\<lambda>_.
          register_token))
      | NonDict _ \<Rightarrow> preturn ())"

text \<open>\<open>config_file(filename)\<close> (lines 240 to 246).\<close>

definition config_file :: "tcex \<Rightarrow> string option \<Rightarrow> pydict prog" where
  "config_file tc filename =
     (case filename of
        Some f \<Rightarrow>
          if isfile tc f
          then pbind (lift (open_read tc f)) (\<lambda>fh. lift (json_load tc fh))
          else pbind (emit (LogError (''Could not load configuration file '' @ [CHR 0x22] @ f
                                        @ [CHR 0x22] @ ''.''))) (\<lambda>_. preturn [])
      | None \<Rightarrow> preturn [])"

subsection \<open>Type coercion: \<open>update_params\<close>\<close>

definition tc_bool_args :: "string list" where
  "tc_bool_args =
     [''apply_proxy_external'', ''apply_proxy_ext'', ''apply_proxy_tc'',
      ''batch_halt_on_error'', ''tc_aot_enabled'', ''tc_log_to_api'',
      ''tc_proxy_external'', ''tc_proxy_tc'', ''tc_secure_params'', ''tc_verify'']"

text \<open>
  The body of the loop of \<open>update_params\<close> (lines 401 to 414) for one item: the new
  value of \<open>arg\<close>. \<open>value.split\<close> exists for a string only; any other value that
  is not a \<open>dict\<close> raises \<open>AttributeError\<close> there.
\<close>

definition update_param :: "tcex \<Rightarrow> string \<Rightarrow> pyval \<Rightarrow> exn + pyval" where
  "update_param tc arg v =
     (let param_data = (case params_dict tc arg of None \<Rightarrow> [] | Some d \<Rightarrow> d) in
      case dict_get param_data ''type'' (PStr '''') of
        PStr t \<Rightarrow>
          (let param_type = py_lower t;
               param_allow_multiple = to_bool tc (dict_get param_data ''allowMultiple'' (PBool False))
           in if param_type = ''multichoice'' \<or> param_allow_multiple
              then (case v of
                      PDict _ \<Rightarrow> Inr v
                    | PStr s \<Rightarrow>
                        (case py_split (list_delimiter tc) s of
                           Inl e \<Rightarrow> Inl e
                         | Inr parts \<Rightarrow> Inr (PList (map PStr parts)))
                    | _ \<Rightarrow> Inl (AttributeError ''split''))
              else if param_type = ''boolean'' then Inr (PBool (to_bool tc v))
              else if arg \<in> set tc_bool_args then Inr (PBool (to_bool tc v))
              else Inr v)
      | _ \<Rightarrow> Inl (AttributeError ''lower''))"

fun update_items :: "tcex \<Rightarrow> pydict \<Rightarrow> pydict \<Rightarrow> exn + pydict" where
  "update_items tc [] updated_params = Inr updated_params"
| "update_items tc ((arg, v) # rest) updated_params =
     (case update_param tc arg v of
        Inl e \<Rightarrow> Inl e
      | Inr v' \<Rightarrow> update_items tc rest (AList.update arg v' updated_params))"

text \<open>\<open>update_params(params)\<close>: \<open>params.items()\<close> needs a dictionary.\<close>

definition update_params :: "tcex \<Rightarrow> pyval \<Rightarrow> exn + pydict" where
  "update_params tc params =
     (case params of
        PDict items \<Rightarrow> update_items tc items []
      | _ \<Rightarrow> Inl (AttributeError ''items''))"

subsection \<open>Loaders\<close>

text \<open>\<open>r.json()['inputs']\<close>: subscription of the decoded body.\<close>

definition subscript :: "pyval \<Rightarrow> string \<Rightarrow> exn + pyval" where
  "subscript v k =
     (case v of
        PDict d \<Rightarrow> (case map_of d k of Some x \<Rightarrow> Inr x | None \<Rightarrow> Inl (KeyError k))
      | _ \<Rightarrow> Inl TypeError)"

text \<open>The exceptions of \<open>except (AttributeError, KeyError, TypeError, ValueError)\<close>.\<close>

fun caught :: "exn \<Rightarrow> bool" where
  "caught (AttributeError _) = True"
| "caught (KeyError _) = True"
| "caught TypeError = True"
| "caught ValueError = True"
| "caught _ = False"

definition secure_params_error :: "response \<Rightarrow> exn" where
  "secure_params_error r =
     (let err = (if resp_text r \<noteq> [] then resp_text r else resp_reason r)
      in RuntimeError (''Error retrieving secure params from API ('' @ err @ '').''))"

text \<open>\<open>_get_secure_params\<close> (lines 99 to 116).\<close>

definition get_secure_params :: "tcex \<Rightarrow> pyval prog" where
  "get_secure_params tc =
     pbind (emit (LogInfo ''Loading secure params.'')) (\<lambda>_.
     pbind (emit (SessionGet ''/internal/job/execution/parameters'')) (\<lambda>_.
     pbind (lift (session_get tc ''/internal/job/execution/parameters'')) (\<lambda>r.
       if \<not> resp_ok r then praise (secure_params_error r)
       else (case resp_json r of
               Inl e \<Rightarrow> if caught e then praise (secure_params_error r) else praise e
             | Inr body \<Rightarrow>
                 (case subscript body ''inputs'' of
                    Inl e \<Rightarrow> if caught e then praise (secure_params_error r) else praise e
                  | Inr secure_params \<Rightarrow> preturn secure_params)))))"

text \<open>\<open>_load_aot_params\<close> (lines 120 to 124).\<close>

definition load_aot_params :: "tcex \<Rightarrow> unit prog" where
  "load_aot_params tc =
     pbind (emit (Enter ''_load_aot_params'')) (\<lambda>_.
     pbind (get_arg ''tc_aot_enabled'') (\<lambda>tc_aot_enabled.
       if py_truthy tc_aot_enabled
       then pbind (emit AotBlpop) (\<lambda>_.
            pbind (lift (aot_blpop tc)) (\<lambda>params.
            pbind (lift (update_params tc params)) (\<lambda>updated_params.
            pbind (new_dict updated_params) (\<lambda>a.
            config tc (DictRef a) True))))
       else preturn ()))"

text \<open>\<open>_load_secure_params\<close> (lines 128 to 132).\<close>

definition load_secure_params :: "tcex \<Rightarrow> unit prog" where
  "load_secure_params tc =
     pbind (emit (Enter ''_load_secure_params'')) (\<lambda>_.
     pbind (get_arg ''tc_secure_params'') (\<lambda>tc_secure_params.
       if py_truthy tc_secure_params
       then pbind (get_secure_params tc) (\<lambda>params.
            pbind (lift (update_params tc params)) (\<lambda>updated_params.
            pbind (new_dict updated_params) (\<lambda>a.
            config tc (DictRef a) True)))
       else preturn ()))"

text \<open>
  \<open>_results_tc_args\<close> (lines 140 to 159). The loop over the lines of the results
  file: \<open>key, value = line.split(' = ')\<close> raises \<open>ValueError\<close> unless the split
  gives two pieces.
\<close>

fun results_lines :: "string list \<Rightarrow> unit prog" where
  "results_lines [] = preturn ()"
| "results_lines (line # rest) =
     (if line = [] \<or> \<not> py_contains '' = '' line then results_lines rest
      else (case split_scan '' = '' [] line of
              [key, v] \<Rightarrow>
                pbind (set_arg key (if v = ''true'' then PBool True
                                    else if v = ''false'' then PBool False
                                    else if v = [] then PNone
                                    else PStr v)) (\<lambda>_. results_lines rest)
            | _ \<Rightarrow> praise ValueError))"

definition results_tc_args :: "tcex \<Rightarrow> unit prog" where
  "results_tc_args tc =
     pbind (get_arg ''tc_out_path'') (\<lambda>tc_out_path.
     pbind (lift (results_tc tc tc_out_path)) (\<lambda>content.
       results_lines (case content of
                        None \<Rightarrow> []
                      | Some c \<Rightarrow> split_scan [newline] [] (py_strip c))))"

text \<open>
  \<open>update_logging\<close> (lines 366 to 388). \<open>self.tcex.default_args\<close> is the namespace
  that line 57 stored in \<open>tcex._default_args\<close>.
\<close>

definition update_logging :: "unit prog" where
  "update_logging =
     pbind (get_arg ''tc_log_level'') (\<lambda>lvl.
     pbind (if lvl = PNone
            then pbind (get_arg ''logging'') (\<lambda>l. set_arg ''tc_log_level'' l)
            else preturn ()) (\<lambda>_.
     pbind (emit (LoggerCall ''log_info'' [])) (\<lambda>_.
     pbind (get_arg ''tc_token'') (\<lambda>tc_token.
     pbind (if tc_token \<noteq> PNone
            then pbind (get_arg ''tc_log_to_api'') (\<lambda>to_api.
                   if py_truthy to_api
                   then pbind (get_arg ''tc_log_level'') (\<lambda>level.
                          emit (LoggerCall ''add_api_handler'' [level]))
                   else preturn ())
            else preturn ()) (\<lambda>_.
     pbind (get_arg ''tc_log_file'') (\<lambda>filename.
     pbind (get_arg ''tc_log_path'') (\<lambda>path.
     pbind (get_arg ''tc_log_backup_count'') (\<lambda>backup_count.
     pbind (get_arg ''tc_log_max_bytes'') (\<lambda>max_bytes.
     pbind (get_arg ''tc_log_level'') (\<lambda>level.
     pbind (emit (LoggerCall ''add_rotating_file_handler''
                    [PStr ''rfh'', filename, path, backup_count, max_bytes, level])) (\<lambda>_.
     emit (LoggerCall ''replay_cached_events'' [PStr ''cache'']))))))))))))"

subsection \<open>Construction\<close>

text \<open>
  \<open>Inputs(tcex, config, config_file)\<close> (lines 31 to 76). \<open>cfg\<close> is the address of
  the caller's \<open>config\<close> dictionary; the object starts with the caller's store, a
  new namespace at the next free address and no events. \<open>init_local\<close> is lines 41
  to 60 (configuration file, command line, results file), followed by lines 63 to
  76. An exception leaves the constructor without an object.
\<close>

definition new_inputs :: "(nat \<Rightarrow> pydict) \<Rightarrow> nat \<Rightarrow> inputs" where
  "new_inputs h n =
     \<lparr>heap = h(n := []), next_ref = Suc n, default_args = n, default_args_resolved = [],
      parsed = False, parsed_resolved = False, unknown = [], events = []\<rparr>"

definition init_local :: "tcex \<Rightarrow> nat \<Rightarrow> string option \<Rightarrow> unit prog" where
  "init_local tc cfg cf =
     pbind (config_file tc cf) (\<lambda>config_file_data.
     pbind (\<lambda>s. set_dict cfg (dict_update (heap s cfg) config_file_data) s) (\<lambda>_.
     pbind (\<lambda>s. set_dict (default_args s) (dict_update (namespace s) (heap s cfg)) s) (\<lambda>_.
     pbind (\<lambda>s. lift (parse_known_args tc (namespace s)) s) (\<lambda>(ns, unknown_args).
     pbind (\<lambda>s. set_dict (default_args s) ns (s\<lparr>unknown := unknown_args\<rparr>)) (\<lambda>_.
     results_tc_args tc)))))"

definition init_steps :: "tcex \<Rightarrow> nat \<Rightarrow> string option \<Rightarrow> unit prog" where
  "init_steps tc cfg cf =
     pbind (init_local tc cfg cf) (\<lambda>_.
     pbind register_token (\<lambda>_.
     pbind (load_aot_params tc) (\<lambda>_.
     pbind (load_secure_params tc) (\<lambda>_.
     update_logging))))"

definition init :: "tcex \<Rightarrow> (nat \<Rightarrow> pydict) \<Rightarrow> nat \<Rightarrow> nat \<Rightarrow> string option \<Rightarrow> (exn + unit) \<times> inputs" where
  "init tc h n cfg cf = init_steps tc cfg cf (new_inputs h n)"

subsection \<open>The two views\<close>

definition tc_reserved_args :: "string list" where
  "tc_reserved_args =
     [''tc_token'', ''tc_token_expires'', ''api_access_id'', ''api_secret_key'',
      ''batch_action'', ''batch_chunk'', ''batch_halt_on_error'', ''batch_poll_interval'',
      ''batch_interval_max'', ''batch_write_type'', ''tc_playbook_db_type'',
      ''tc_playbook_db_context'', ''tc_playbook_db_path'', ''tc_playbook_db_port'',
      ''tc_playbook_out_variables'', ''api_default_org'', ''tc_api_path'', ''tc_in_path'',
      ''tc_log_file'', ''tc_log_path'', ''tc_out_path'', ''tc_secure_params'',
      ''tc_temp_path'', ''tc_user_id'', ''tc_proxy_host'', ''tc_proxy_port'',
      ''tc_proxy_username'', ''tc_proxy_password'', ''tc_proxy_external'', ''tc_proxy_tc'',
      ''tc_log_to_api'', ''tc_log_level'', ''logging'']"

text \<open>\<open>unknown_args\<close> (lines 361 to 362).\<close>

fun unknown_args :: "string list \<Rightarrow> unit prog" where
  "unknown_args [] = preturn ()"
| "unknown_args (u # us) =
     pbind (emit (LogWarning (''Unsupported arg found ('' @ u @ '').''))) (\<lambda>_. unknown_args us)"

text \<open>
  \<open>args(parse=False)\<close> (lines 169 to 190); the result is the namespace. The service
  id is the third piece of \<open>tc_svc_client_topic.split('-')\<close>.
\<close>

definition args :: "tcex \<Rightarrow> bool \<Rightarrow> pydict prog" where
  "args tc parse =
     pbind (\<lambda>s. (if \<not> parsed s \<or> parse
                  then pbind (lift (parse_known_args tc (namespace s))) (\<lambda>(ns, unknown_args').
                       pbind (\<lambda>s. set_dict (default_args s) ns (s\<lparr>unknown := unknown_args'\<rparr>)) (\<lambda>_.
                       pbind (\<lambda>s. config tc (DictRef (default_args s)) False s) (\<lambda>_.
                       pbind (get_arg ''tc_svc_client_topic'') (\<lambda>topic.
                       pbind (case topic of
                                PNone \<Rightarrow> preturn ()
                              | PStr t \<Rightarrow>
                                  (case split_scan ''-'' [] t of
                                     _ # _ # service_id # _ \<Rightarrow> set_arg ''service_id'' (PStr service_id)
                                   | _ \<Rightarrow> praise IndexError)
                              | _ \<Rightarrow> praise (AttributeError ''split'')) (\<lambda>_.
                       pbind (\<lambda>s. (Inr (), s\<lparr>parsed := True\<rparr>)) (\<lambda>_.
                       (\<lambda>s. unknown_args (unknown s) s)))))))
                  else preturn ()) s) (\<lambda>_.
     (\<lambda>s. (Inr (namespace s), s)))"

text \<open>
  The loop of \<open>resolved_args\<close> (lines 283 to 288) over the items of the namespace:
  a string value of an argument that is not reserved is read through the playbook.
\<close>

fun resolve_items :: "tcex \<Rightarrow> pydict \<Rightarrow> unit prog" where
  "resolve_items tc [] = preturn ()"
| "resolve_items tc ((arg, arg_val) # rest) =
     pbind (if arg \<notin> set tc_reserved_args
            then (case arg_val of
                    PStr v \<Rightarrow> lift (playbook_read tc v)
                  | _ \<Rightarrow> preturn arg_val)
            else preturn arg_val) (\<lambda>arg_val'.
     pbind (\<lambda>s. (Inr (), s\<lparr>default_args_resolved :=
                              AList.update arg arg_val' (default_args_resolved s)\<rparr>)) (\<lambda>_.
     resolve_items tc rest))"

text \<open>\<open>resolved_args(parse=False)\<close> (lines 276 to 292).\<close>

definition resolved_args :: "tcex \<Rightarrow> bool \<Rightarrow> pydict prog" where
  "resolved_args tc parse =
     pbind (\<lambda>s. (if \<not> parsed_resolved s \<or> parse
                  then pbind (args tc False) (\<lambda>_.
                       pbind (\<lambda>s. (Inr (), s\<lparr>default_args_resolved := []\<rparr>)) (\<lambda>_.
                       pbind (\<lambda>s. resolve_items tc (namespace s) s) (\<lambda>_.
                       (\<lambda>s. (Inr (), s\<lparr>parsed_resolved := True\<rparr>)))))
                  else preturn ()) s) (\<lambda>_.
     (\<lambda>s. (Inr (default_args_resolved s), s)))"

section \<open>Vocabulary of the properties\<close>

text \<open>
  The events of the two loaders: the entry into \<open>_load_aot_params\<close> or
  \<open>_load_secure_params\<close>, the blocking pop and the request to the parameter service.
\<close>

fun is_loader_event :: "event \<Rightarrow> bool" where
  "is_loader_event (Enter name) = (name = ''_load_aot_params'' \<or> name = ''_load_secure_params'')"
| "is_loader_event AotBlpop = True"
| "is_loader_event (SessionGet _) = True"
| "is_loader_event _ = False"

text \<open>No loader event stands before the first occurrence of \<open>e\<close> in a trace.\<close>

definition no_loader_before :: "event \<Rightarrow> event list \<Rightarrow> bool" where
  "no_loader_before e tr = list_all (\<lambda>x. \<not> is_loader_event x) (takeWhile (\<lambda>x. x \<noteq> e) tr)"

text \<open>
  A program only appends events, each of which satisfies \<open>P\<close>; a program leaves a
  component \<open>f\<close> of the state as it is.
\<close>

definition extends :: "(event \<Rightarrow> bool) \<Rightarrow> 'a prog \<Rightarrow> bool" where
  "extends P m = (\<forall>s. \<exists>es. events (snd (m s)) = events s @ es \<and> list_all P es)"




section \<open>A sample environment\<close>

text \<open>A store in which every dictionary is empty.\<close>

definition empty_store :: "nat \<Rightarrow> pydict" where
  "empty_store = (\<lambda>_. [])"

text \<open>
  \<open>TestCase._to_bool\<close> of test_case.py (line 64),
  \<open>str(value).lower() in ['1', 'true']\<close>, the conversion \<open>tcex.utils.to_bool\<close>
  performs: \<open>str\<close> of \<open>True\<close> is \<open>'True'\<close>, of the integer 1 is \<open>'1'\<close>, and
  \<open>str\<close> of \<open>None\<close>, of a list or of a dictionary is neither.
\<close>

definition to_bool_str :: "pyval \<Rightarrow> bool" where
  "to_bool_str v =
     (case v of
        PStr s \<Rightarrow> py_lower s \<in> {''1'', ''true''}
      | PBool b \<Rightarrow> b
      | PInt n \<Rightarrow> n = 1
      | _ \<Rightarrow> False)"

text \<open>
  \<open>json.load\<close> on the two documents of the examples: \<open>{}\<close> is the empty object;
  \<open>{\<close>, an object that is never closed, is rejected with \<open>JSONDecodeError\<close>
  (a \<open>ValueError\<close>). Other documents do not occur.
\<close>

definition json_load_sample :: "string \<Rightarrow> exn + pydict" where
  "json_load_sample doc = (if doc = ''{}'' then Inr [] else Inl ValueError)"

text \<open>
  A run \<open>app.py --owner=Acme\<close>: the parser stores the owner and the values of
  the framework arguments that the constructor reads, with secure params enabled.
  On disk, \<open>tcex.json\<close> holds the text \<open>{\<close> and \<open>empty.json\<close> the text \<open>{}\<close>.
  The descriptor declares \<open>tags\<close> as MultiChoice and \<open>debug_mode\<close> as Boolean,
  with the list delimiter \<open>,\<close>. The parameter service answers with
  \<open>{"inputs": {"owner": "Beta"}}\<close>.
\<close>

definition sample_cli :: pydict where
  "sample_cli =
     [(''owner'', PStr ''Acme''), (''tc_token'', PStr ''T0KEN''),
      (''tc_token_expires'', PStr ''1700000000''), (''tc_out_path'', PStr ''out''),
      (''tc_aot_enabled'', PBool False), (''tc_secure_params'', PBool True),
      (''tc_svc_client_topic'', PNone)]"

definition dq :: string where
  "dq = [CHR 0x22]"

definition sample_response :: response where
  "sample_response =
     \<lparr>resp_ok = True,
      resp_text = ''{'' @ dq @ ''inputs'' @ dq @ '': {'' @ dq @ ''owner'' @ dq @ '': '' @ dq @ ''Beta'' @ dq @ ''}}'',
      resp_reason = ''OK'',
      resp_json = Inr (PDict [(''inputs'', PDict [(''owner'', PStr ''Beta'')])])\<rparr>"

definition sample_tcex :: tcex where
  "sample_tcex =
     \<lparr>sys_argv = [''app.py'', ''--owner=Acme''],
      parse_known_args = (\<lambda>ns. Inr (dict_update ns sample_cli, [])),
      isfile = (\<lambda>f. f = ''tcex.json'' \<or> f = ''empty.json''),
      open_read = (\<lambda>f. if f = ''tcex.json'' then Inr ''{'' else Inr ''{}''),
      json_load = json_load_sample,
      results_tc = (\<lambda>p. Inr None),
      aot_blpop = Inr (PDict []),
      session_get = (\<lambda>p. Inr sample_response),
      params_dict = [''tags'' \<mapsto> [(''type'', PStr ''MultiChoice'')],
                     ''debug_mode'' \<mapsto> [(''type'', PStr ''Boolean'')]],
      list_delimiter = '','',
      to_bool = to_bool_str,
      playbook_read = (\<lambda>v. Inr (PStr v))\<rparr>"



text \<open>The same run started as \<open>app.py --owner Acme\<close>.\<close>

definition sample_tcex_spaced :: tcex where
  "sample_tcex_spaced = sample_tcex\<lparr>sys_argv := [''app.py'', ''--owner'', ''Acme'']\<rparr>"

text \<open>
  A state after the command line was parsed: the namespace at address 1 holds the
  parsed arguments, and a dictionary of the caller at address 0 holds values from a
  later source.
\<close>

definition sample_state :: inputs where
  "sample_state =
     \<lparr>heap = empty_store(0 := [(''owner'', PStr ''Beta''), (''api_default_org'', PStr ''TCI'')],
                         1 := sample_cli),
      next_ref = 2, default_args = 1, default_args_resolved = [],
      parsed = False, parsed_resolved = False, unknown = [], events = []\<rparr>"

section \<open>Proofs\<close>

subsection \<open>The matcher\<close>

declare matches.simps [simp del]

lemma concat_map_Nil: "(\<And>x. x \<in> set xs \<Longrightarrow> f x = []) \<Longrightarrow> concat (map f xs) = []"
  by (induction xs) auto

lemma matches_RSeq_single: "matches a st = [st'] \<Longrightarrow> matches (RSeq a b) st = matches b st'"
  by (simp add: matches.simps)

lemma matches_RSeq_hd:
  "matches a st = st' # rest \<Longrightarrow> matches b st' = m # rest' \<Longrightarrow>
   \<exists>r. matches (RSeq a b) st = m # r"
  by (simp add: matches.simps)

lemma matches_RLit_append: "matches (RLit w) (g, pos, w @ s) = [(g, pos + length w, s)]"
  by (simp add: matches.simps)

subsection \<open>Environment indirection\<close>









subsection \<open>The variable grammar\<close>

lemma takeWhile_stop:
  assumes "\<forall>x\<in>set xs. p x" and "\<not> p c"
  shows "takeWhile p (xs @ c # t) = xs"
  using assms by (induction xs) auto

text \<open>A greedy class repetition before a character outside the class.\<close>

lemma matches_RPlus_stop:
  assumes "\<forall>x\<in>set xs. p x" and "\<not> p c"
  shows "matches (RPlus p) (g, pos, xs @ c # t) =
           map (\<lambda>k. (g, pos + k, drop k xs @ c # t)) (rev [1..<Suc (length xs)])"
proof -
  have "map (\<lambda>k. (g, pos + k, drop k (xs @ c # t))) (rev [1..<Suc (length xs)])
      = map (\<lambda>k. (g, pos + k, drop k xs @ c # t)) (rev [1..<Suc (length xs)])"
    by (rule map_cong) auto
  then show ?thesis
    unfolding matches.simps takeWhile_stop [OF assms] .
qed

lemma matches_group_plus_lit:
  assumes all: "\<forall>x\<in>set xs. p x" and c: "\<not> p c" and ne: "xs \<noteq> []"
  shows "matches (RSeq (RGroup n (RPlus p)) (RSeq (RLit [c]) r)) (g, pos, xs @ c # t)
         = matches r ((n, xs) # g, pos + length xs + 1, t)"
proof -
  let ?f = "\<lambda>k. ((n, take k xs) # g, pos + k, drop k xs @ c # t)"
  let ?next = "matches (RSeq (RLit [c]) r)"
  have grp: "matches (RGroup n (RPlus p)) (g, pos, xs @ c # t)
             = map ?f (rev [1..<Suc (length xs)])"
    unfolding matches.simps(6) matches_RPlus_stop [OF all c]
    by (auto simp add: comp_def)
  have len: "1 \<le> length xs" using ne by (cases xs) auto
  then have split: "rev [1..<Suc (length xs)] = length xs # rev [1..<length xs]"
    by simp
  have tail: "?next (?f k) = []" if "k \<in> set (rev [1..<length xs])" for k
  proof -
    from that have k: "k < length xs" by auto
    then obtain y ys where d: "drop k xs = y # ys" by (cases "drop k xs") auto
    then have "y \<in> set xs" by (metis in_set_dropD list.set_intros(1))
    with all c have "y \<noteq> c" by auto
    then show ?thesis by (simp add: matches.simps d)
  qed
  have first: "?next (?f (length xs)) = matches r ((n, xs) # g, pos + length xs + 1, t)"
    by (simp add: matches.simps)
  have "matches (RSeq (RGroup n (RPlus p)) (RSeq (RLit [c]) r)) (g, pos, xs @ c # t)
        = concat (map ?next (map ?f (rev [1..<Suc (length xs)])))"
    unfolding matches.simps(4) [of "RGroup n (RPlus p)"] grp ..
  also have "\<dots> = ?next (?f (length xs)) @ concat (map (\<lambda>k. ?next (?f k)) (rev [1..<length xs]))"
    unfolding split by (simp add: comp_def)
  also have "concat (map (\<lambda>k. ?next (?f k)) (rev [1..<length xs])) = []"
    by (rule concat_map_Nil) (rule tail)
  finally show ?thesis using first by simp
qed

lemma matches_RPlus_all:
  assumes "\<forall>c\<in>set s. p c" and "s \<noteq> []"
  shows "\<exists>rest. matches (RPlus p) (g, pos, s) = (g, pos + length s, []) # rest"
proof -
  have "takeWhile p s = s"
    using assms(1) by (simp add: takeWhile_eq_all_conv)
  then have tw: "length (takeWhile p s) = length s"
    by (rule arg_cong)
  have "1 \<le> length s" using assms(2) by (cases s) auto
  then have "rev [1..<Suc (length s)] = length s # rev [1..<length s]" by simp
  then show ?thesis unfolding matches.simps tw by simp
qed

lemma matches_RAlt_left:
  "matches a st = m # r \<Longrightarrow> \<exists>r'. matches (RAlt a b) st = m # r'"
  by (simp add: matches.simps)

lemma matches_RAlt_right:
  "matches a st = [] \<Longrightarrow> matches (RAlt a b) st = matches b st"
  by (simp add: matches.simps)

lemma matches_RLit_no: "\<not> starts_with s w \<Longrightarrow> matches (RLit w) (g, pos, s) = []"
  by (simp add: matches.simps starts_with_def)

lemma matches_RNotAhead_lit:
  "\<not> starts_with s w \<Longrightarrow> matches (RNotAhead (RLit w)) (g, pos, s) = [(g, pos, s)]"
  by (simp add: matches.simps starts_with_def)

lemma starts_with_append: "starts_with s (a @ b) \<Longrightarrow> starts_with s a"
proof -
  assume "starts_with s (a @ b)"
  then have "take (length a + length b) s = a @ b" by (simp add: starts_with_def)
  then have "take (length a) (take (length a + length b) s) = take (length a) (a @ b)" by simp
  then show ?thesis by (simp add: starts_with_def min_def)
qed

lemma matches_custom_type:
  assumes "is_custom_type ty"
  shows "\<exists>rest. matches custom_type (g, pos, ty) = (g, pos + length ty, []) # rest"
proof -
  from assms have ne: "ty \<noteq> []" and cls: "\<forall>c\<in>set ty. custom_char c"
    and s1: "\<not> starts_with ty ''String''" and s2: "\<not> starts_with ty ''Binary''"
    and s3: "\<not> starts_with ty ''KeyValue''" and s4: "\<not> starts_with ty ''TCEntity''"
    and s5: "\<not> starts_with ty ''TCEnhancedEntity''"
    by (simp_all add: is_custom_type_def list_all_iff)
  show ?thesis
    unfolding custom_type_def
      matches_RSeq_single [OF matches_RNotAhead_lit [OF s1]]
      matches_RSeq_single [OF matches_RNotAhead_lit [OF s2]]
      matches_RSeq_single [OF matches_RNotAhead_lit [OF s3]]
      matches_RSeq_single [OF matches_RNotAhead_lit [OF s4]]
      matches_RSeq_single [OF matches_RNotAhead_lit [OF s5]]
    by (rule matches_RPlus_all [OF cls ne])
qed

lemma matches_variable_type_custom:
  assumes "is_custom_type ty"
  shows "\<exists>rest. matches variable_type (g, pos, ty) = (g, pos + length ty, []) # rest"
proof -
  from assms have s1: "\<not> starts_with ty ''String''" and s2: "\<not> starts_with ty ''Binary''"
    and s3: "\<not> starts_with ty ''KeyValue''" and s4: "\<not> starts_with ty ''TCEntity''"
    and s5: "\<not> starts_with ty ''TCEnhancedEntity''"
    by (simp_all add: is_custom_type_def)
  have a1: "\<not> starts_with ty ''StringArray''"
    using s1 starts_with_append [of ty "''String''" "''Array''"] by auto
  have a2: "\<not> starts_with ty ''BinaryArray''"
    using s2 starts_with_append [of ty "''Binary''" "''Array''"] by auto
  have a3: "\<not> starts_with ty ''KeyValueArray''"
    using s3 starts_with_append [of ty "''KeyValue''" "''Array''"] by auto
  have a4: "\<not> starts_with ty ''TCEntityArray''"
    using s4 starts_with_append [of ty "''TCEntity''" "''Array''"] by auto
  have a5: "\<not> starts_with ty ''TCEnhancedEntityArray''"
    using s5 starts_with_append [of ty "''TCEnhancedEntity''" "''Array''"] by auto
  show ?thesis
    unfolding variable_type_def
      matches_RAlt_right [OF matches_RLit_no [OF a1]]
      matches_RAlt_right [OF matches_RLit_no [OF a2]]
      matches_RAlt_right [OF matches_RLit_no [OF a3]]
      matches_RAlt_right [OF matches_RLit_no [OF a4]]
      matches_RAlt_right [OF matches_RLit_no [OF a5]]
      matches_RAlt_right [OF matches_RLit_no [OF s1]]
      matches_RAlt_right [OF matches_RLit_no [OF s2]]
      matches_RAlt_right [OF matches_RLit_no [OF s3]]
      matches_RAlt_right [OF matches_RLit_no [OF s4]]
      matches_RAlt_right [OF matches_RLit_no [OF s5]]
    by (rule matches_custom_type [OF assms])
qed

lemma matches_RAlt_lit_here:
  "n = pos + length w \<Longrightarrow>
   \<exists>rest. matches (RAlt (RLit w) b) (g, pos, w) = (g, n, []) # rest"
  by (simp add: matches.simps)

lemma matches_RAlt_lit_skip:
  "take (length w) s \<noteq> w \<Longrightarrow> matches (RAlt (RLit w) b) (g, pos, s) = matches b (g, pos, s)"
  by (simp add: matches.simps)

lemma matches_variable_type_keyword:
  assumes "ty \<in> set type_keywords"
  shows "\<exists>rest. matches variable_type (g, pos, ty) = (g, pos + length ty, []) # rest"
proof -
  from assms have "ty = ''StringArray'' \<or> ty = ''BinaryArray'' \<or> ty = ''KeyValueArray''
    \<or> ty = ''TCEntityArray'' \<or> ty = ''TCEnhancedEntityArray'' \<or> ty = ''String''
    \<or> ty = ''Binary'' \<or> ty = ''KeyValue'' \<or> ty = ''TCEntity'' \<or> ty = ''TCEnhancedEntity''"
    by (simp add: type_keywords_def)
  then show ?thesis
  proof (elim disjE)
    assume "ty = ''StringArray''"
    then show ?thesis unfolding variable_type_def by (simp add: matches_RAlt_lit_here)
  next
    assume "ty = ''BinaryArray''"
    then show ?thesis unfolding variable_type_def
      by (simp add: matches_RAlt_lit_skip matches_RAlt_lit_here)
  next
    assume "ty = ''KeyValueArray''"
    then show ?thesis unfolding variable_type_def
      by (simp add: matches_RAlt_lit_skip matches_RAlt_lit_here)
  next
    assume "ty = ''TCEntityArray''"
    then show ?thesis unfolding variable_type_def
      by (simp add: matches_RAlt_lit_skip matches_RAlt_lit_here)
  next
    assume "ty = ''TCEnhancedEntityArray''"
    then show ?thesis unfolding variable_type_def
      by (simp add: matches_RAlt_lit_skip matches_RAlt_lit_here)
  next
    assume "ty = ''String''"
    then show ?thesis unfolding variable_type_def
      by (simp add: matches_RAlt_lit_skip matches_RAlt_lit_here)
  next
    assume "ty = ''Binary''"
    then show ?thesis unfolding variable_type_def
      by (simp add: matches_RAlt_lit_skip matches_RAlt_lit_here)
  next
    assume "ty = ''KeyValue''"
    then show ?thesis unfolding variable_type_def
      by (simp add: matches_RAlt_lit_skip matches_RAlt_lit_here)
  next
    assume "ty = ''TCEntity''"
    then show ?thesis unfolding variable_type_def
      by (simp add: matches_RAlt_lit_skip matches_RAlt_lit_here)
  next
    assume "ty = ''TCEnhancedEntity''"
    then show ?thesis unfolding variable_type_def
      by (simp add: matches_RAlt_lit_skip matches_RAlt_lit_here)
  qed
qed

lemma matches_variable_type:
  "is_variable_type ty \<Longrightarrow>
   \<exists>rest. matches variable_type (g, pos, ty) = (g, pos + length ty, []) # rest"
  unfolding is_variable_type_def
  using matches_variable_type_keyword matches_variable_type_custom by blast

lemma not_alpha_colon: "\<not> is_alpha CHR '':''"
  by (simp add: is_alpha_def)

lemma not_digit_colon: "\<not> is_digit CHR '':''"
  by (simp add: is_digit_def)

lemma not_name_char_bang: "\<not> name_char CHR ''!''"
  by (simp add: name_char_def is_alpha_def is_digit_def)

lemma matches_variable_pattern:
  assumes "well_formed ns ident nm ty"
  shows "\<exists>rest. matches variable_pattern (g, pos, variable_string ns ident nm ty) =
           ((4, ty) # (3, nm) # (2, ident) # (1, ns) # g,
            pos + length (variable_string ns ident nm ty), []) # rest"
proof -
  from assms have ns: "\<forall>x\<in>set ns. is_alpha x" "ns \<noteq> []"
    and ident: "\<forall>x\<in>set ident. is_digit x" "ident \<noteq> []"
    and nm: "\<forall>x\<in>set nm. name_char x" "nm \<noteq> []"
    and ty: "is_variable_type ty"
    by (simp_all add: well_formed_def list_all_iff)
  let ?g3 = "(3, nm) # (2, ident) # (1, ns) # g"
  let ?p3 = "pos + length ''#'' + length ns + 1 + length ident + 1 + length nm + 1"
  have shape: "variable_string ns ident nm ty
      = ''#'' @ (ns @ CHR '':'' # (ident @ CHR '':'' # (nm @ CHR ''!'' # ty)))"
    by (simp add: variable_string_def)
  obtain rest where t: "matches variable_type (?g3, ?p3, ty) = (?g3, ?p3 + length ty, []) # rest"
    using matches_variable_type [OF ty] by blast
  have "matches variable_pattern (g, pos, variable_string ns ident nm ty)
        = matches (RGroup 4 variable_type) (?g3, ?p3, ty)"
    unfolding variable_pattern_def shape
      matches_RSeq_single [OF matches_RLit_append]
      matches_group_plus_lit [OF ns(1) not_alpha_colon ns(2)]
      matches_group_plus_lit [OF ident(1) not_digit_colon ident(2)]
      matches_group_plus_lit [OF nm(1) not_name_char_bang nm(2)] ..
  also have "\<exists>r. matches (RGroup 4 variable_type) (?g3, ?p3, ty)
        = ((4, ty) # ?g3, ?p3 + length ty, []) # r"
    unfolding matches.simps(6) t by simp
  ultimately show ?thesis by (auto simp: variable_string_def add.assoc)
qed

lemma re_search_variable:
  assumes "well_formed ns ident nm ty"
  shows "\<exists>pos rest. re_search variable_parse (variable_string ns ident nm ty) =
           Some ([(4, ty), (3, nm), (2, ident), (1, ns)], pos, rest)"
proof -
  let ?v = "variable_string ns ident nm ty"
  obtain rest where m: "matches variable_pattern ([], 0, ?v) =
      ([(4, ty), (3, nm), (2, ident), (1, ns)], 0 + length ?v, []) # rest"
    using matches_variable_pattern [OF assms, of "[]" 0] by blast
  have "[0..<Suc (length ?v)] = 0 # [1..<Suc (length ?v)]"
    by (simp add: upt_rec)
  then show ?thesis
    unfolding re_search_def variable_parse_def by (simp add: m)
qed

lemma re_match_variable:
  assumes "well_formed ns ident nm ty"
  shows "re_match variable_match (variable_string ns ident nm ty) \<noteq> None"
proof -
  let ?v = "variable_string ns ident nm ty"
  obtain rest where m: "matches variable_pattern ([], 0, ?v) =
      ([(4, ty), (3, nm), (2, ident), (1, ns)], 0 + length ?v, []) # rest"
    using matches_variable_pattern [OF assms, of "[]" 0] by blast
  have bol: "matches RBol ([], 0, ?v) = [([], 0, ?v)]"
    by (simp add: matches.simps)
  have eol: "matches REol ([(4, ty), (3, nm), (2, ident), (1, ns)], 0 + length ?v, [])
      = [([(4, ty), (3, nm), (2, ident), (1, ns)], 0 + length ?v, [])]"
    by (simp add: matches.simps)
  have "\<exists>r. matches variable_match ([], 0, ?v) =
      ([(4, ty), (3, nm), (2, ident), (1, ns)], 0 + length ?v, []) # r"
    unfolding variable_match_def matches_RSeq_single [OF bol]
    by (rule matches_RSeq_hd [OF m eol])
  then show ?thesis by (auto simp: re_match_def)
qed

lemma dropWhile_hd_id: "xs \<noteq> [] \<Longrightarrow> \<not> p (hd xs) \<Longrightarrow> dropWhile p xs = xs"
  by (cases xs) auto

lemma py_strip_id:
  assumes "s \<noteq> []" and "\<not> py_isspace (hd s)" and "\<not> py_isspace (last s)"
  shows "py_strip s = s"
proof -
  have a: "dropWhile py_isspace s = s"
    using assms(1,2) by (rule dropWhile_hd_id)
  have "rev s \<noteq> []" "\<not> py_isspace (hd (rev s))"
    using assms(1,3) by (simp_all add: hd_rev)
  then have b: "dropWhile py_isspace (rev s) = rev s"
    by (rule dropWhile_hd_id)
  show ?thesis by (simp add: py_strip_def a b)
qed

lemma custom_char_not_space: "custom_char c \<Longrightarrow> \<not> py_isspace c"
  by (auto simp: custom_char_def is_alpha_def is_digit_def py_isspace_def)

lemma variable_type_last:
  assumes "is_variable_type ty"
  shows "ty \<noteq> [] \<and> \<not> py_isspace (last ty)"
proof (cases "is_custom_type ty")
  case True
  then have "ty \<noteq> []" "\<forall>c\<in>set ty. custom_char c"
    by (simp_all add: is_custom_type_def list_all_iff)
  then show ?thesis using custom_char_not_space by auto
next
  case False
  with assms have "ty \<in> set type_keywords" by (simp add: is_variable_type_def)
  then show ?thesis by (auto simp: type_keywords_def py_isspace_def)
qed

lemma py_strip_variable:
  assumes "well_formed ns ident nm ty"
  shows "py_strip (variable_string ns ident nm ty) = variable_string ns ident nm ty"
proof -
  from assms have "is_variable_type ty" by (simp add: well_formed_def)
  then have ty: "ty \<noteq> []" "\<not> py_isspace (last ty)"
    using variable_type_last by auto
  show ?thesis
  proof (rule py_strip_id)
    show "variable_string ns ident nm ty \<noteq> []" by (simp add: variable_string_def)
    show "\<not> py_isspace (hd (variable_string ns ident nm ty))"
      by (simp add: variable_string_def py_isspace_def)
    show "\<not> py_isspace (last (variable_string ns ident nm ty))"
      using ty by (simp add: variable_string_def)
  qed
qed

lemma method_name_well_formed:
  assumes "well_formed ns ident nm ty"
  shows "method_name (Some (variable_string ns ident nm ty)) =
           Inr (Some (py_lower (replace_char CHR ''.'' CHR ''_'' nm) @ ''_'' @ py_lower ty))"
proof -
  let ?v = "variable_string ns ident nm ty"
  obtain m where a: "re_match variable_match ?v = Some m"
    using re_match_variable [OF assms] by auto
  obtain pos rest where b: "re_search variable_parse ?v =
      Some ([(4, ty), (3, nm), (2, ident), (1, ns)], pos, rest)"
    using re_search_variable [OF assms] by blast
  show ?thesis
    unfolding method_name_def by (simp add: py_strip_variable [OF assms] a b group_def)
qed

text \<open>Matching only adds groups in front of those already captured.\<close>

lemma matches_groups_grow:
  "m \<in> set (matches r (g, pos, s)) \<Longrightarrow> \<exists>g'. fst m = g' @ g"
proof (induction r arbitrary: g pos s m)
  case (RSeq a b)
  then obtain st where st: "st \<in> set (matches a (g, pos, s))" and m: "m \<in> set (matches b st)"
    by (auto simp: matches.simps)
  obtain g1 p1 s1 where [simp]: "st = (g1, p1, s1)" by (cases st)
  from RSeq.IH(1) [OF st] obtain ga where "g1 = ga @ g" by auto
  moreover from RSeq.IH(2) [of m g1 p1 s1] m obtain gb where "fst m = gb @ g1" by auto
  ultimately show ?case by auto
next
  case (RAlt a b)
  from RAlt.prems have "m \<in> set (matches a (g, pos, s)) \<or> m \<in> set (matches b (g, pos, s))"
    by (simp add: matches.simps)
  then show ?case using RAlt.IH by blast
next
  case (RGroup n a)
  then obtain g1 p1 s1 where st: "(g1, p1, s1) \<in> set (matches a (g, pos, s))"
    and m: "m = ((n, take (p1 - pos) s) # g1, p1, s1)"
    by (auto simp: matches.simps)
  from RGroup.IH [OF st] obtain ga where "g1 = ga @ g" by auto
  with m show ?case by auto
next
  case (RNotAhead a)
  then show ?case by (auto simp: matches.simps split: if_splits)
qed (auto simp: matches.simps split: if_splits)

lemma map_of_grow: "map_of g n \<noteq> None \<Longrightarrow> map_of (g' @ g) n \<noteq> None"
  by (auto simp: map_add_def split: option.splits)

lemma defines_RGroup:
  "\<forall>st m. m \<in> set (matches (RGroup n a) st) \<longrightarrow> map_of (fst m) n \<noteq> None"
  by (auto simp: matches.simps)

lemma defines_RSeq_right:
  assumes "\<forall>st m. m \<in> set (matches b st) \<longrightarrow> map_of (fst m) n \<noteq> None"
  shows "\<forall>st m. m \<in> set (matches (RSeq a b) st) \<longrightarrow> map_of (fst m) n \<noteq> None"
proof (intro allI impI)
  fix st m assume "m \<in> set (matches (RSeq a b) st)"
  then obtain st1 where "m \<in> set (matches b st1)"
    by (auto simp: matches.simps)
  with assms show "map_of (fst m) n \<noteq> None" by blast
qed

lemma defines_RSeq_left:
  assumes "\<forall>st m. m \<in> set (matches a st) \<longrightarrow> map_of (fst m) n \<noteq> None"
  shows "\<forall>st m. m \<in> set (matches (RSeq a b) st) \<longrightarrow> map_of (fst m) n \<noteq> None"
proof (intro allI impI)
  fix st m assume "m \<in> set (matches (RSeq a b) st)"
  then obtain st1 where st1: "st1 \<in> set (matches a st)" and m: "m \<in> set (matches b st1)"
    by (auto simp: matches.simps)
  obtain g1 p1 s1 where eq: "st1 = (g1, p1, s1)" by (cases st1)
  from assms st1 have "map_of (fst st1) n \<noteq> None" by blast
  then have "map_of g1 n \<noteq> None" by (simp add: eq)
  moreover from matches_groups_grow [of m b g1 p1 s1] m eq obtain g' where "fst m = g' @ g1"
    by auto
  ultimately show "map_of (fst m) n \<noteq> None" using map_of_grow by simp
qed

lemma variable_pattern_group3:
  "\<forall>st m. m \<in> set (matches variable_pattern st) \<longrightarrow> map_of (fst m) 3 \<noteq> None"
  unfolding variable_pattern_def
  apply (rule defines_RSeq_right)
  apply (rule defines_RSeq_right)
  apply (rule defines_RSeq_right)
  apply (rule defines_RSeq_right)
  apply (rule defines_RSeq_right)
  apply (rule defines_RSeq_left)
  apply (rule defines_RGroup)
  done

lemma variable_pattern_group4:
  "\<forall>st m. m \<in> set (matches variable_pattern st) \<longrightarrow> map_of (fst m) 4 \<noteq> None"
  unfolding variable_pattern_def
  apply (rule defines_RSeq_right)
  apply (rule defines_RSeq_right)
  apply (rule defines_RSeq_right)
  apply (rule defines_RSeq_right)
  apply (rule defines_RSeq_right)
  apply (rule defines_RSeq_right)
  apply (rule defines_RSeq_right)
  apply (rule defines_RGroup)
  done

lemma re_search_of_match:
  assumes "re_match variable_match v \<noteq> None"
  shows "\<exists>m. re_search variable_parse v = Some m \<and> m \<in> set (matches variable_pattern ([], 0, v))"
proof -
  have "matches variable_match ([], 0, v) \<noteq> []"
  proof
    assume "matches variable_match ([], 0, v) = []"
    then have "re_match variable_match v = None" by (simp add: re_match_def)
    with assms show False by simp
  qed
  moreover have "matches variable_match ([], 0, v)
      = concat (map (matches REol) (matches variable_pattern ([], 0, v)))"
    by (simp add: variable_match_def matches.simps(4,8))
  ultimately have "matches variable_pattern ([], 0, v) \<noteq> []"
    by auto
  then obtain m rest where m: "matches variable_pattern ([], 0, v) = m # rest"
    by (cases "matches variable_pattern ([], 0, v)") auto
  have "[0..<Suc (length v)] = 0 # [1..<Suc (length v)]"
    by (simp add: upt_rec)
  then have "re_search variable_parse v = Some m"
    unfolding re_search_def variable_parse_def by (simp add: m)
  with m show ?thesis by simp
qed

lemma method_name_total: "\<exists>r. method_name variable = Inr r"
proof (cases variable)
  case None
  then show ?thesis by (simp add: method_name_def)
next
  case (Some v0)
  note v0 = this
  show ?thesis
  proof (cases "re_match variable_match (py_strip v0)")
    case None
    with v0 show ?thesis by (simp add: method_name_def)
  next
    case (Some a)
    then have "re_match variable_match (py_strip v0) \<noteq> None" by simp
    from re_search_of_match [OF this]
    obtain m where s: "re_search variable_parse (py_strip v0) = Some m"
      and m: "m \<in> set (matches variable_pattern ([], 0, py_strip v0))"
      by blast
    from m variable_pattern_group3 have "map_of (fst m) 3 \<noteq> None" by blast
    then obtain g3 where g3: "group m 3 = Some g3" by (auto simp: group_def)
    from m variable_pattern_group4 have "map_of (fst m) 4 \<noteq> None" by blast
    then obtain g4 where g4: "group m 4 = Some g4" by (auto simp: group_def)
    show ?thesis
      unfolding method_name_def v0 by (simp add: Some s g3 g4)
  qed
qed

subsection \<open>From a match back to the string\<close>

lemma in_RSeq:
  "m \<in> set (matches (RSeq a b) st) \<longleftrightarrow> (\<exists>st'\<in>set (matches a st). m \<in> set (matches b st'))"
  by (simp add: matches.simps)

lemma in_RSeqD:
  "m \<in> set (matches (RSeq a b) st) \<Longrightarrow> \<exists>st'. st' \<in> set (matches a st) \<and> m \<in> set (matches b st')"
  by (auto simp: in_RSeq)

lemma in_RLit:
  "m \<in> set (matches (RLit w) (g, p, s)) \<longleftrightarrow>
     take (length w) s = w \<and> m = (g, p + length w, drop (length w) s)"
  by (auto simp: matches.simps)

lemma in_RLit_append:
  "(g', p', s') \<in> set (matches (RLit w) (g, p, s)) \<Longrightarrow> s = w @ s'"
  by (auto simp: in_RLit) (metis append_take_drop_id)

lemma in_RAlt:
  "m \<in> set (matches (RAlt a b) st) \<longleftrightarrow> m \<in> set (matches a st) \<or> m \<in> set (matches b st)"
  by (simp add: matches.simps)

lemma in_RNotAhead_lit:
  "m \<in> set (matches (RNotAhead (RLit w)) (g, p, s)) \<longleftrightarrow> \<not> starts_with s w \<and> m = (g, p, s)"
  by (auto simp: matches.simps starts_with_def)

lemma in_RPlus:
  assumes "(g', p', s') \<in> set (matches (RPlus P) (g, p, s))"
  shows "\<exists>xs. xs \<noteq> [] \<and> (\<forall>x\<in>set xs. P x) \<and> s = xs @ s'"
proof -
  from assms obtain k where k: "1 \<le> k" "k \<le> length (takeWhile P s)" and s': "s' = drop k s"
    by (auto simp: matches.simps)
  have "take k s = take k (takeWhile P s)"
    using k(2) by (metis append_eq_conv_conj takeWhile_dropWhile_id take_append take_all_iff
        diff_is_0_eq' take_0 append_Nil2)
  then have "\<forall>x\<in>set (take k s). P x"
    by (metis in_set_takeD set_takeWhileD)
  moreover have "take k s \<noteq> []"
    using k by (cases s) auto
  moreover have "s = take k s @ s'" by (simp add: s')
  ultimately show ?thesis by blast
qed

lemma in_custom_type:
  assumes "(g', p', s') \<in> set (matches custom_type (g, p, s))"
  shows "\<exists>ty. s = ty @ s' \<and> ty \<noteq> [] \<and> list_all custom_char ty \<and>
           \<not> starts_with s ''String'' \<and> \<not> starts_with s ''Binary'' \<and>
           \<not> starts_with s ''KeyValue'' \<and> \<not> starts_with s ''TCEntity'' \<and>
           \<not> starts_with s ''TCEnhancedEntity''"
proof -
  from assms have no: "\<not> starts_with s ''String''" "\<not> starts_with s ''Binary''"
    "\<not> starts_with s ''KeyValue''" "\<not> starts_with s ''TCEntity''"
    "\<not> starts_with s ''TCEnhancedEntity''"
    and plus: "(g', p', s') \<in> set (matches (RPlus custom_char) (g, p, s))"
    unfolding custom_type_def by (auto simp: in_RSeq in_RNotAhead_lit)
  from in_RPlus [OF plus] no show ?thesis by (auto simp: list_all_iff)
qed

lemma in_variable_type:
  assumes "(g', p', s') \<in> set (matches variable_type (g, p, s))"
  shows "\<exists>ty. s = ty @ s' \<and>
           (ty \<in> set type_keywords \<or>
            (ty \<noteq> [] \<and> list_all custom_char ty \<and>
             \<not> starts_with s ''String'' \<and> \<not> starts_with s ''Binary'' \<and>
             \<not> starts_with s ''KeyValue'' \<and> \<not> starts_with s ''TCEntity'' \<and>
             \<not> starts_with s ''TCEnhancedEntity''))"
proof -
  from assms consider w where "w \<in> set type_keywords" "(g', p', s') \<in> set (matches (RLit w) (g, p, s))"
    | "(g', p', s') \<in> set (matches custom_type (g, p, s))"
    unfolding variable_type_def in_RAlt type_keywords_def by fastforce
  then show ?thesis
  proof cases
    case 1
    from in_RLit_append [OF 1(2)] 1(1) show ?thesis by blast
  next
    case 2
    from in_custom_type [OF 2] show ?thesis by blast
  qed
qed

lemma in_RGroup_inner:
  "(g', p', s') \<in> set (matches (RGroup n a) (g, p, s)) \<Longrightarrow>
   \<exists>g0. (g0, p', s') \<in> set (matches a (g, p, s))"
  by (auto simp: matches.simps)

lemma in_group_plus_lit:
  assumes "m \<in> set (matches (RSeq (RGroup n (RPlus P)) (RSeq (RLit w) r)) (g, p, s))"
  shows "\<exists>xs s1 g1 p1. xs \<noteq> [] \<and> list_all P xs \<and> s = xs @ w @ s1 \<and> m \<in> set (matches r (g1, p1, s1))"
proof -
  from assms obtain st1 st2 where a: "st1 \<in> set (matches (RGroup n (RPlus P)) (g, p, s))"
    and b: "st2 \<in> set (matches (RLit w) st1)" and c: "m \<in> set (matches r st2)"
    by (auto simp: in_RSeq)
  obtain g1 p1 s1 where st1: "st1 = (g1, p1, s1)" by (cases st1)
  obtain g2 p2 s2 where st2: "st2 = (g2, p2, s2)" by (cases st2)
  from a st1 in_RGroup_inner obtain g0 where "(g0, p1, s1) \<in> set (matches (RPlus P) (g, p, s))"
    by blast
  from in_RPlus [OF this] obtain xs where xs: "xs \<noteq> []" "\<forall>x\<in>set xs. P x" "s = xs @ s1"
    by blast
  from b st1 st2 have "s1 = w @ s2" by (auto dest: in_RLit_append)
  with xs c st2 show ?thesis by (auto simp: list_all_iff)
qed

lemma starts_with_appendI: "starts_with ty w \<Longrightarrow> starts_with (ty @ r) w"
proof -
  assume a: "starts_with ty w"
  then have "length (take (length w) ty) = length w"
    by (simp only: starts_with_def)
  then have "length w \<le> length ty" by simp
  with a show ?thesis by (simp add: starts_with_def)
qed

lemma variable_pattern_inv:
  assumes "(g', p', s') \<in> set (matches variable_pattern (g, p, s))"
  shows "\<exists>ns ident nm ty. well_formed ns ident nm ty \<and> s = variable_string ns ident nm ty @ s'"
proof -
  let ?r1 = "RSeq (RGroup 2 (RPlus is_digit))
    (RSeq (RLit '':'') (RSeq (RGroup 3 (RPlus name_char)) (RSeq (RLit ''!'') (RGroup 4 variable_type))))"
  let ?r2 = "RSeq (RGroup 3 (RPlus name_char)) (RSeq (RLit ''!'') (RGroup 4 variable_type))"
  from in_RSeqD [OF assms [unfolded variable_pattern_def]]
  obtain st0 where h: "st0 \<in> set (matches (RLit ''#'') (g, p, s))"
    and m0: "(g', p', s') \<in> set (matches (RSeq (RGroup 1 (RPlus is_alpha)) (RSeq (RLit '':'') ?r1)) st0)"
    by blast
  obtain g0 p0 s0 where st0: "st0 = (g0, p0, s0)" by (cases st0)
  from h st0 have s: "s = ''#'' @ s0" by (auto dest: in_RLit_append)
  from in_group_plus_lit [OF m0 [unfolded st0]]
  obtain ns s1 g1 p1 where ns: "ns \<noteq> []" "list_all is_alpha ns" "s0 = ns @ '':'' @ s1"
    and m1: "(g', p', s') \<in> set (matches ?r1 (g1, p1, s1))"
    by blast
  from in_group_plus_lit [OF m1]
  obtain ident s2 g2 p2 where ident: "ident \<noteq> []" "list_all is_digit ident" "s1 = ident @ '':'' @ s2"
    and m2: "(g', p', s') \<in> set (matches ?r2 (g2, p2, s2))"
    by blast
  from in_group_plus_lit [OF m2]
  obtain nm s3 g3 p3 where nm: "nm \<noteq> []" "list_all name_char nm" "s2 = nm @ ''!'' @ s3"
    and m3: "(g', p', s') \<in> set (matches (RGroup 4 variable_type) (g3, p3, s3))"
    by blast
  from in_RGroup_inner [OF m3] obtain g4 where
    "(g4, p', s') \<in> set (matches variable_type (g3, p3, s3))" by blast
  from in_variable_type [OF this] obtain ty where ty: "s3 = ty @ s'"
    and kind: "ty \<in> set type_keywords \<or>
            (ty \<noteq> [] \<and> list_all custom_char ty \<and>
             \<not> starts_with s3 ''String'' \<and> \<not> starts_with s3 ''Binary'' \<and>
             \<not> starts_with s3 ''KeyValue'' \<and> \<not> starts_with s3 ''TCEntity'' \<and>
             \<not> starts_with s3 ''TCEnhancedEntity'')"
    by blast
  have "is_variable_type ty"
    using kind unfolding is_variable_type_def is_custom_type_def ty
    using starts_with_appendI [of ty _ s'] by blast
  with ns ident nm have "well_formed ns ident nm ty" by (simp add: well_formed_def)
  moreover have "s = variable_string ns ident nm ty @ s'"
    by (simp add: s ns ident nm ty variable_string_def)
  ultimately show ?thesis by blast
qed

lemma variable_match_inv:
  assumes "re_match variable_match v \<noteq> None"
  shows "\<exists>ns ident nm ty rest. well_formed ns ident nm ty \<and>
           v = variable_string ns ident nm ty @ rest \<and> (rest = [] \<or> rest = [newline])"
proof -
  from assms have "matches variable_match ([], 0, v) \<noteq> []"
    by (auto simp: re_match_def)
  then obtain m where "m \<in> set (matches variable_match ([], 0, v))"
    by (cases "matches variable_match ([], 0, v)") auto
  then obtain st where st: "st \<in> set (matches variable_pattern ([], 0, v))"
    and e: "m \<in> set (matches REol st)"
    unfolding variable_match_def by (auto simp: in_RSeq matches.simps(8))
  obtain g' p' s' where [simp]: "st = (g', p', s')" by (cases st)
  from e have rest: "s' = [] \<or> s' = [newline]"
    by (auto simp: matches.simps split: if_splits)
  from variable_pattern_inv [of g' p' s' "[]" 0 v] st
  obtain ns ident nm ty where "well_formed ns ident nm ty" "v = variable_string ns ident nm ty @ s'"
    by auto
  with rest show ?thesis by blast
qed

lemma py_strip_last: "py_strip v \<noteq> [] \<Longrightarrow> \<not> py_isspace (last (py_strip v))"
proof -
  let ?ys = "dropWhile py_isspace (rev (dropWhile py_isspace v))"
  assume "py_strip v \<noteq> []"
  then have ne: "?ys \<noteq> []" by (simp add: py_strip_def)
  then have "\<not> py_isspace (hd ?ys)" by (rule hd_dropWhile)
  moreover have "last (py_strip v) = hd ?ys"
    using ne by (simp add: py_strip_def last_rev)
  ultimately show ?thesis by simp
qed

text \<open>The strings for which \<open>_method_name\<close> is null, without the pattern.\<close>

lemma method_name_None_iff:
  "method_name (Some v) = Inr None \<longleftrightarrow>
     \<not> (\<exists>ns ident nm ty. well_formed ns ident nm ty \<and> py_strip v = variable_string ns ident nm ty)"
proof
  assume none: "method_name (Some v) = Inr None"
  show "\<not> (\<exists>ns ident nm ty. well_formed ns ident nm ty \<and> py_strip v = variable_string ns ident nm ty)"
  proof
    assume "\<exists>ns ident nm ty. well_formed ns ident nm ty \<and> py_strip v = variable_string ns ident nm ty"
    then obtain ns ident nm ty where wf: "well_formed ns ident nm ty"
      and v: "py_strip v = variable_string ns ident nm ty" by blast
    have "method_name (Some v) = method_name (Some (variable_string ns ident nm ty))"
      by (simp add: method_name_def v py_strip_variable [OF wf])
    with none method_name_well_formed [OF wf] show False by simp
  qed
next
  assume no: "\<not> (\<exists>ns ident nm ty. well_formed ns ident nm ty \<and> py_strip v = variable_string ns ident nm ty)"
  have "re_match variable_match (py_strip v) = None"
  proof (rule ccontr)
    assume "re_match variable_match (py_strip v) \<noteq> None"
    from variable_match_inv [OF this] obtain ns ident nm ty rest where
      wf: "well_formed ns ident nm ty" and v: "py_strip v = variable_string ns ident nm ty @ rest"
      and rest: "rest = [] \<or> rest = [newline]" by blast
    from rest show False
    proof
      assume "rest = []"
      with wf v no show False by auto
    next
      assume r: "rest = [newline]"
      with v have "py_strip v \<noteq> []" "last (py_strip v) = newline" by simp_all
      with py_strip_last [of v] show False by (simp add: py_isspace_def newline_def)
    qed
  qed
  then show "method_name (Some v) = Inr None" by (simp add: method_name_def)
qed

text \<open>
  Claim C8, as the code has it. For every string of the variable grammar
  \<open>#namespace:id:name!type\<close>, \<open>_method_name\<close> returns the name with each \<open>.\<close>
  replaced by \<open>_\<close>, lower-cased, then \<open>_\<close> and the lower-cased type. The
  argument is stripped of surrounding whitespace first, so the result is null exactly
  for the strings whose stripped form does not match the full pattern, that is, is
  not a string of the grammar; and no argument makes it raise.
\<close>

theorem method_name_grammar:
  "(well_formed ns ident nm ty \<longrightarrow>
      method_name (Some (variable_string ns ident nm ty)) =
        Inr (Some (py_lower (replace_char CHR ''.'' CHR ''_'' nm) @ ''_'' @ py_lower ty))) \<and>
   (re_match variable_match (py_strip v) = None \<longrightarrow> method_name (Some v) = Inr None) \<and>
   ((method_name (Some v) = Inr None) =
      (\<not> (\<exists>ns ident nm ty. well_formed ns ident nm ty \<and>
                             py_strip v = variable_string ns ident nm ty))) \<and>
   (\<exists>r. method_name variable = Inr r)"
proof (intro conjI impI)
  assume "well_formed ns ident nm ty"
  then show "method_name (Some (variable_string ns ident nm ty)) =
        Inr (Some (py_lower (replace_char CHR ''.'' CHR ''_'' nm) @ ''_'' @ py_lower ty))"
    by (rule method_name_well_formed)
next
  assume "re_match variable_match (py_strip v) = None"
  then show "method_name (Some v) = Inr None"
    by (simp add: method_name_def)
next
  show "(method_name (Some v) = Inr None) =
      (\<not> (\<exists>ns ident nm ty. well_formed ns ident nm ty \<and>
                             py_strip v = variable_string ns ident nm ty))"
    by (rule method_name_None_iff)
next
  show "\<exists>r. method_name variable = Inr r"
    by (rule method_name_total)
qed

theorem method_name_grammar_witness:
  "method_name (Some ''#App:9876:http.content!Binary'') = Inr (Some ''http_content_binary'') \<and>
   method_name (Some ''tc_action'') = Inr None"
proof -
  have wf: "well_formed ''App'' ''9876'' ''http.content'' ''Binary''"
    by code_simp
  have nm: "re_match variable_match (py_strip ''tc_action'') = None"
    by code_simp
  have v: "variable_string ''App'' ''9876'' ''http.content'' ''Binary''
           = ''#App:9876:http.content!Binary''"
    by code_simp
  have l: "py_lower (replace_char CHR ''.'' CHR ''_'' ''http.content'') @ ''_'' @ py_lower ''Binary''
           = ''http_content_binary''"
    by code_simp
  show ?thesis
    using method_name_grammar [of "''App''" "''9876''" "''http.content''" "''Binary''" "''tc_action''"]
      wf nm
    unfolding v l by blast
qed

text \<open>
  The string below does not match the full pattern (it starts with a blank), and
  \<open>_method_name\<close> still returns a method name for it, not null.
\<close>

theorem method_name_strip_counterexample:
  "re_match variable_match '' #App:9876:http.content!Binary'' = None \<and>
   method_name (Some '' #App:9876:http.content!Binary'') = Inr (Some ''http_content_binary'')"
  by code_simp

subsection \<open>Programs and their traces\<close>

lemma pbind_cases:
  "pbind m f s = (case m s of (Inl e, s') \<Rightarrow> (Inl e, s') | (Inr x, s') \<Rightarrow> f x s')"
  by (simp add: pbind_def)

lemma pbind_Inr: "m s = (Inr x, s') \<Longrightarrow> pbind m f s = f x s'"
  by (simp add: pbind_def)

lemma pbind_Inl: "m s = (Inl e, s') \<Longrightarrow> pbind m f s = (Inl e, s')"
  by (simp add: pbind_def)

lemma pbind_returns:
  assumes "pbind m f s = (Inr y, s2)"
  obtains x s1 where "m s = (Inr x, s1)" and "f x s1 = (Inr y, s2)"
  using assms by (auto simp: pbind_def split: prod.splits sum.splits)

lemma extends_preturn: "extends P (preturn x)"
  by (simp add: extends_def preturn_def)

lemma extends_praise: "extends P (praise e)"
  by (simp add: extends_def praise_def)

lemma extends_lift: "extends P (lift r)"
  by (simp add: extends_def lift_def)

lemma extends_emit: "P e \<Longrightarrow> extends P (emit e)"
  by (simp add: extends_def emit_def)

lemma extends_get_arg: "extends P (get_arg name)"
  by (simp add: extends_def get_arg_def split: option.splits)

lemma extends_set_dict: "extends P (set_dict a d)"
  by (simp add: extends_def set_dict_def)

lemma extends_new_dict: "extends P (new_dict d)"
  by (simp add: extends_def new_dict_def)

lemma extends_update: "(\<And>s. events (g s) = events s) \<Longrightarrow> extends P (\<lambda>s. (Inr x, g s))"
  by (simp add: extends_def)

lemma extends_state: "(\<And>s0. extends P (F s0)) \<Longrightarrow> extends P (\<lambda>s. F s s)"
  by (simp add: extends_def)

lemma extends_pbind:
  assumes "extends P m" and "\<And>x. extends P (f x)"
  shows "extends P (pbind m f)"
  unfolding extends_def
proof
  fix s
  obtain r s1 where m: "m s = (r, s1)" by (cases "m s")
  from assms(1) have "\<exists>es. events (snd (m s)) = events s @ es \<and> list_all P es"
    unfolding extends_def by blast
  then obtain es where es: "events s1 = events s @ es" "list_all P es"
    using m by auto
  show "\<exists>es. events (snd (pbind m f s)) = events s @ es \<and> list_all P es"
  proof (cases r)
    case (Inl e)
    with m es show ?thesis by (auto simp: pbind_def)
  next
    case (Inr x)
    from assms(2) [of x] have "\<exists>es. events (snd (f x s1)) = events s1 @ es \<and> list_all P es"
      unfolding extends_def by blast
    then obtain es' where "events (snd (f x s1)) = events s1 @ es'" "list_all P es'"
      by auto
    with m es Inr show ?thesis by (auto simp: pbind_def)
  qed
qed

lemma extends_if: "extends P a \<Longrightarrow> extends P b \<Longrightarrow> extends P (if c then a else b)"
  by simp

lemma extends_case_sum:
  "(\<And>e. extends P (f e)) \<Longrightarrow> (\<And>x. extends P (g x)) \<Longrightarrow>
   extends P (case r of Inl e \<Rightarrow> f e | Inr x \<Rightarrow> g x)"
  by (cases r) simp_all

lemma extends_case_prod: "(\<And>a b. extends P (f a b)) \<Longrightarrow> extends P (case p of (a, b) \<Rightarrow> f a b)"
  by (cases p) simp

lemma extends_set_dict_state: "extends P (\<lambda>s. set_dict (a s) (d s) s)"
  by (rule extends_state) (rule extends_set_dict)

lemma extends_set_arg: "extends P (set_arg name v)"
  unfolding set_arg_def by (rule extends_set_dict_state)

lemma extends_register_token: "extends (\<lambda>_. True) register_token"
  unfolding register_token_def
  by (intro extends_pbind extends_emit extends_get_arg extends_if extends_preturn TrueI)

lemma extends_config: "extends (\<lambda>_. True) (config tc a p)"
proof (cases a)
  case (DictRef x)
  show ?thesis
    unfolding config_def DictRef pyarg.case
    by (intro extends_pbind extends_if extends_set_dict_state extends_preturn
        extends_register_token)
next
  case (NonDict v)
  then show ?thesis by (simp add: config_def extends_preturn)
qed

lemma extends_get_secure_params: "extends (\<lambda>_. True) (get_secure_params tc)"
  unfolding get_secure_params_def
  by (intro extends_pbind extends_emit extends_lift extends_if extends_case_sum
      extends_praise extends_preturn TrueI)

lemma extends_load_aot_params: "extends (\<lambda>_. True) (load_aot_params tc)"
  unfolding load_aot_params_def
  by (intro extends_pbind extends_emit extends_lift extends_get_arg extends_new_dict
      extends_config extends_preturn extends_if TrueI)

lemma extends_load_secure_params: "extends (\<lambda>_. True) (load_secure_params tc)"
  unfolding load_secure_params_def
  by (intro extends_pbind extends_emit extends_lift extends_get_arg extends_new_dict
      extends_config extends_preturn extends_get_secure_params extends_if TrueI)

lemma extends_update_logging: "extends (\<lambda>_. True) update_logging"
  unfolding update_logging_def
  by (intro extends_pbind extends_emit extends_get_arg extends_set_arg extends_preturn
      extends_if TrueI)

lemma extends_config_file: "extends (\<lambda>e. \<exists>m. e = LogError m) (config_file tc cf)"
proof (cases cf)
  case None
  then show ?thesis by (simp add: config_file_def extends_preturn)
next
  case (Some f)
  show ?thesis
    unfolding config_file_def Some option.case
    by (intro extends_if extends_pbind extends_lift extends_emit extends_preturn) simp
qed

lemma extends_results_lines: "extends P (results_lines ls)"
proof (induction ls)
  case Nil
  show ?case by (simp add: extends_preturn)
next
  case (Cons line rest)
  show ?case
  proof (cases "line = [] \<or> \<not> py_contains '' = '' line")
    case True
    then show ?thesis using Cons by auto
  next
    case False
    show ?thesis
    proof (cases "\<exists>key v. split_scan '' = '' [] line = [key, v]")
      case True
      then obtain key v where kv: "split_scan '' = '' [] line = [key, v]" by blast
      have step: "extends P (pbind (set_arg key x) (\<lambda>_. results_lines rest))" for x
        by (intro extends_pbind extends_set_arg Cons)
      from False kv show ?thesis
        by (simp add: step del: split_scan.simps)
    next
      case no: False
      have "results_lines (line # rest) = praise ValueError"
        using False no
        by (simp del: split_scan.simps split: list.splits)
      then show ?thesis by (simp only: extends_praise)
    qed
  qed
qed

lemma extends_results_tc_args: "extends P (results_tc_args tc)"
  unfolding results_tc_args_def
  by (intro extends_pbind extends_get_arg extends_lift extends_results_lines)

lemma extends_lift_state: "extends P (\<lambda>s. lift (g s) s)"
  by (rule extends_state) (rule extends_lift)

lemma extends_set_dict_before:
  "(\<And>s. events (g s) = events s) \<Longrightarrow> extends P (\<lambda>s. set_dict (a s) (d s) (g s))"
  by (simp add: extends_def set_dict_def)

lemma extends_init_local:
  "extends (\<lambda>e. \<exists>m. e = LogError m) (init_local tc cfg cf)"
  unfolding init_local_def
  by (intro extends_pbind extends_config_file extends_set_dict_state extends_lift_state
      extends_case_prod extends_set_dict_before extends_results_tc_args) simp

lemma extendsD:
  "extends P m \<Longrightarrow> m s = (r, s') \<Longrightarrow> \<exists>es. events s' = events s @ es \<and> list_all P es"
  unfolding extends_def by (metis snd_conv)

lemma register_token_enters:
  "\<exists>es. events (snd (register_token s)) = events s @ Enter ''register_token'' # es"
proof -
  let ?k = "\<lambda>_::unit. pbind (get_arg ''tc_token'') (\<lambda>tc_token.
       if tc_token \<noteq> PNone
       then pbind (get_arg ''tc_token_expires'') (\<lambda>tc_token_expires.
              emit (RegisterToken ''MainThread'' tc_token tc_token_expires))
       else preturn ())"
  let ?s1 = "s\<lparr>events := events s @ [Enter ''register_token'']\<rparr>"
  have "extends (\<lambda>_. True) (?k ())"
    by (intro extends_pbind extends_emit extends_get_arg extends_if extends_preturn TrueI)
  then obtain es where "events (snd (?k () ?s1)) = events ?s1 @ es"
    unfolding extends_def by blast
  moreover have "register_token s = ?k () ?s1"
    by (simp add: register_token_def pbind_def emit_def)
  ultimately show ?thesis by simp
qed

lemma extends_after_register:
  "extends (\<lambda>_. True) (pbind (load_aot_params tc) (\<lambda>_. pbind (load_secure_params tc) (\<lambda>_. update_logging)))"
  by (intro extends_pbind extends_load_aot_params extends_load_secure_params extends_update_logging)

lemma no_loader_before_prefix:
  assumes "list_all (\<lambda>e. \<not> is_loader_event e \<and> e \<noteq> x) pre"
  shows "no_loader_before x pre" and "no_loader_before x (pre @ x # post)"
proof -
  from assms have a: "\<forall>e\<in>set pre. e \<noteq> x" and b: "list_all (\<lambda>e. \<not> is_loader_event e) pre"
    by (auto simp: list_all_iff)
  from a have t1: "takeWhile (\<lambda>e. e \<noteq> x) pre = pre" by (simp add: takeWhile_eq_all_conv)
  show "no_loader_before x pre" unfolding no_loader_before_def t1 by (rule b)
  from a have t2: "takeWhile (\<lambda>e. e \<noteq> x) (pre @ x # post) = pre"
    by (simp add: takeWhile_append2)
  show "no_loader_before x (pre @ x # post)" unfolding no_loader_before_def t2 by (rule b)
qed

lemma init_trace:
  "\<exists>pre. list_all (\<lambda>e. \<not> is_loader_event e \<and> e \<noteq> Enter ''register_token'') pre \<and>
     (events (snd (init tc h n cfg cf)) = pre \<or>
      (\<exists>post. events (snd (init tc h n cfg cf)) = pre @ Enter ''register_token'' # post))"
proof -
  let ?s0 = "new_inputs h n"
  obtain r1 s1 where l: "init_local tc cfg cf ?s0 = (r1, s1)"
    by (cases "init_local tc cfg cf ?s0")
  from extendsD [OF extends_init_local l]
  have "list_all (\<lambda>e. \<exists>m. e = LogError m) (events s1)"
    by (auto simp: new_inputs_def)
  then have "list_all (\<lambda>e. \<not> is_loader_event e \<and> e \<noteq> Enter ''register_token'') (events s1)"
    by (auto simp: list_all_iff)
  then obtain pre where pre: "events s1 = pre"
    "list_all (\<lambda>e. \<not> is_loader_event e \<and> e \<noteq> Enter ''register_token'') pre"
    by blast
  show ?thesis
  proof (cases r1)
    case (Inl e)
    with l have "init tc h n cfg cf = (Inl e, s1)"
      by (simp add: init_def init_steps_def pbind_def)
    with pre show ?thesis by auto
  next
    case (Inr u)
    let ?rest = "pbind (load_aot_params tc) (\<lambda>_. pbind (load_secure_params tc) (\<lambda>_. update_logging))"
    obtain r2 s2 where t: "register_token s1 = (r2, s2)" by (cases "register_token s1")
    from register_token_enters [of s1] t obtain es where
      es: "events s2 = events s1 @ Enter ''register_token'' # es" by auto
    have i: "init tc h n cfg cf = pbind register_token (\<lambda>_. ?rest) s1"
      using l Inr by (simp add: init_def init_steps_def pbind_def)
    show ?thesis
    proof (cases r2)
      case (Inl e)
      with t i have "init tc h n cfg cf = (Inl e, s2)" by (simp add: pbind_def)
      with es pre show ?thesis by auto
    next
      case (Inr u2)
      with t i have "init tc h n cfg cf = ?rest s2" by (simp add: pbind_def)
      moreover obtain r3 s3 where r: "?rest s2 = (r3, s3)" by (cases "?rest s2")
      moreover from extendsD [OF extends_after_register r]
      obtain es' where "events s3 = events s2 @ es'" by auto
      ultimately show ?thesis using es pre by auto
    qed
  qed
qed

text \<open>
  Claim C7. In every construction of \<open>Inputs\<close>, whatever the collaborators answer
  and wherever the run stops, the first entry into \<open>register_token\<close> comes before
  every event of the two loaders (their entry, the blocking pop and the request to
  the parameter service). When the configuration merged so far carries a token that
  is not null, the registrar itself is called before every loader event.
\<close>

theorem registration_before_loaders:
  "no_loader_before (Enter ''register_token'') (events (snd (init tc h n cfg cf))) \<and>
   (init_local tc cfg cf (new_inputs h n) = (Inr (), s1) \<longrightarrow>
    map_of (namespace s1) ''tc_token'' = Some tok \<longrightarrow> tok \<noteq> PNone \<longrightarrow>
    map_of (namespace s1) ''tc_token_expires'' = Some expires \<longrightarrow>
      RegisterToken ''MainThread'' tok expires \<in> set (events (snd (init tc h n cfg cf))) \<and>
      no_loader_before (RegisterToken ''MainThread'' tok expires)
        (events (snd (init tc h n cfg cf))))"
proof (intro conjI impI)
  from init_trace [of tc h n cfg cf] obtain pre where
    pre: "list_all (\<lambda>e. \<not> is_loader_event e \<and> e \<noteq> Enter ''register_token'') pre"
    and tr: "events (snd (init tc h n cfg cf)) = pre \<or>
      (\<exists>post. events (snd (init tc h n cfg cf)) = pre @ Enter ''register_token'' # post)"
    by blast
  from tr show "no_loader_before (Enter ''register_token'') (events (snd (init tc h n cfg cf)))"
    using no_loader_before_prefix [OF pre] by auto
next
  assume l: "init_local tc cfg cf (new_inputs h n) = (Inr (), s1)"
    and tok: "map_of (namespace s1) ''tc_token'' = Some tok" "tok \<noteq> PNone"
    and ex: "map_of (namespace s1) ''tc_token_expires'' = Some expires"
  let ?reg = "RegisterToken ''MainThread'' tok expires"
  let ?s2 = "s1\<lparr>events := events s1 @ [Enter ''register_token'', ?reg]\<rparr>"
  let ?rest = "pbind (load_aot_params tc) (\<lambda>_. pbind (load_secure_params tc) (\<lambda>_. update_logging))"
  have ns: "namespace (s1\<lparr>events := x\<rparr>) = namespace s1" for x
    by (simp add: namespace_def)
  have reg: "register_token s1 = (Inr (), ?s2)"
    using tok ex by (simp add: register_token_def pbind_def emit_def get_arg_def ns)
  have i: "init tc h n cfg cf = ?rest ?s2"
    using l reg by (simp add: init_def init_steps_def pbind_def)
  obtain r3 s3 where r: "?rest ?s2 = (r3, s3)" by (cases "?rest ?s2")
  from extendsD [OF extends_after_register r]
  obtain es where es: "events s3 = events s1 @ Enter ''register_token'' # ?reg # es" by auto
  from extendsD [OF extends_init_local l]
  have pre: "list_all (\<lambda>e. \<exists>m. e = LogError m) (events s1)"
    by (auto simp: new_inputs_def)
  have tr: "events (snd (init tc h n cfg cf)) = (events s1 @ [Enter ''register_token'']) @ ?reg # es"
    using i r es by simp
  show "?reg \<in> set (events (snd (init tc h n cfg cf)))"
    unfolding tr by simp
  have "list_all (\<lambda>e. \<not> is_loader_event e \<and> e \<noteq> ?reg) (events s1 @ [Enter ''register_token''])"
    using pre by (auto simp: list_all_iff)
  then show "no_loader_before ?reg (events (snd (init tc h n cfg cf)))"
    unfolding tr by (rule no_loader_before_prefix(2))
qed

theorem registration_before_loaders_witness:
  "no_loader_before (Enter ''register_token'') (events (snd (init sample_tcex empty_store 1 0 None))) \<and>
   RegisterToken ''MainThread'' (PStr ''T0KEN'') (PStr ''1700000000'')
     \<in> set (events (snd (init sample_tcex empty_store 1 0 None))) \<and>
   no_loader_before (RegisterToken ''MainThread'' (PStr ''T0KEN'') (PStr ''1700000000''))
     (events (snd (init sample_tcex empty_store 1 0 None))) \<and>
   SessionGet ''/internal/job/execution/parameters''
     \<in> set (events (snd (init sample_tcex empty_store 1 0 None)))"
proof -
  let ?l = "init_local sample_tcex 0 None (new_inputs empty_store 1)"
  have "fst ?l = Inr ()" by code_simp
  then have l: "?l = (Inr (), snd ?l)" by (metis prod.collapse)
  have tok: "map_of (namespace (snd ?l)) ''tc_token'' = Some (PStr ''T0KEN'')"
    by code_simp
  have ex: "map_of (namespace (snd ?l)) ''tc_token_expires'' = Some (PStr ''1700000000'')"
    by code_simp
  have get: "SessionGet ''/internal/job/execution/parameters''
     \<in> set (events (snd (init sample_tcex empty_store 1 0 None)))"
    by code_simp
  show ?thesis
    using registration_before_loaders [of sample_tcex empty_store 1 0 None "snd ?l"
        "PStr ''T0KEN''" "PStr ''1700000000''"] l tok ex get
    by simp
qed

subsection \<open>The remote parameter service\<close>


lemma update_params_not_dict: "\<forall>d. v \<noteq> PDict d \<Longrightarrow> update_params tc v = Inl (AttributeError ''items'')"
  by (cases v) (simp_all add: update_params_def)

lemma events_irrelevant [simp]: "namespace (s\<lparr>events := x\<rparr>) = namespace s"
  by (simp add: namespace_def)



































subsection \<open>The configuration file\<close>

text \<open>
  Claim C4, as the code has it. \<open>config_file\<close> returns the empty dictionary for no
  file name and for a file that does not exist, which it logs as an error. For a
  file that exists it returns what \<open>json.load\<close> decodes; when the document is
  malformed, the \<open>ValueError\<close> of \<open>json.load\<close> leaves \<open>config_file\<close> as it is:
  nothing catches it and nothing is logged.
\<close>

theorem config_file_outcomes:
  "config_file tc None s = (Inr [], s) \<and>
   (\<not> isfile tc f \<longrightarrow>
      config_file tc (Some f) s =
        (Inr [], s\<lparr>events := events s @
           [LogError (''Could not load configuration file '' @ [CHR 0x22] @ f @ [CHR 0x22] @ ''.'')]\<rparr>)) \<and>
   (isfile tc f \<longrightarrow> open_read tc f = Inr doc \<longrightarrow> json_load tc doc = Inr d \<longrightarrow>
      config_file tc (Some f) s = (Inr d, s)) \<and>
   (isfile tc f \<longrightarrow> open_read tc f = Inr doc \<longrightarrow> json_load tc doc = Inl e \<longrightarrow>
      config_file tc (Some f) s = (Inl e, s))"
  by (simp add: config_file_def preturn_def pbind_def lift_def emit_def)

theorem config_file_outcomes_witness:
  "config_file sample_tcex None (new_inputs empty_store 1) = (Inr [], new_inputs empty_store 1) \<and>
   fst (config_file sample_tcex (Some ''missing.json'') (new_inputs empty_store 1)) = Inr [] \<and>
   events (snd (config_file sample_tcex (Some ''missing.json'') (new_inputs empty_store 1))) =
     [LogError (''Could not load configuration file '' @ [CHR 0x22] @ ''missing.json'' @ [CHR 0x22] @ ''.'')] \<and>
   config_file sample_tcex (Some ''empty.json'') (new_inputs empty_store 1) =
     (Inr [], new_inputs empty_store 1) \<and>
   config_file sample_tcex (Some ''tcex.json'') (new_inputs empty_store 1) =
     (Inl ValueError, new_inputs empty_store 1)"
proof -
  let ?s = "new_inputs empty_store 1"
  have a: "\<not> isfile sample_tcex ''missing.json''"
    by (simp add: sample_tcex_def)
  have b: "isfile sample_tcex ''empty.json''" "open_read sample_tcex ''empty.json'' = Inr ''{}''"
    "json_load sample_tcex ''{}'' = Inr []"
    by (simp_all add: sample_tcex_def json_load_sample_def)
  have c: "isfile sample_tcex ''tcex.json''" "open_read sample_tcex ''tcex.json'' = Inr ''{''"
    "json_load sample_tcex ''{'' = Inl ValueError"
    by (simp_all add: sample_tcex_def json_load_sample_def)
  from config_file_outcomes [of sample_tcex ?s "''missing.json''" "''{}''" "[]" ValueError] a
  have 1: "config_file sample_tcex None ?s = (Inr [], ?s)"
    and 2: "config_file sample_tcex (Some ''missing.json'') ?s =
        (Inr [], ?s\<lparr>events := events ?s @
           [LogError (''Could not load configuration file '' @ [CHR 0x22] @ ''missing.json'' @ [CHR 0x22] @ ''.'')]\<rparr>)"
    by blast+
  from config_file_outcomes [of sample_tcex ?s "''empty.json''" "''{}''" "[]" ValueError] b
  have 3: "config_file sample_tcex (Some ''empty.json'') ?s = (Inr [], ?s)"
    by blast
  from config_file_outcomes [of sample_tcex ?s "''tcex.json''" "''{''" "[]" ValueError] c
  have 4: "config_file sample_tcex (Some ''tcex.json'') ?s = (Inl ValueError, ?s)"
    by blast
  show ?thesis
    unfolding 1 2 3 4 by (simp add: new_inputs_def)
qed

text \<open>
  The file \<open>tcex.json\<close> exists and holds the malformed document \<open>{\<close>: the
  loader raises to its caller instead of returning the empty dictionary.
\<close>

theorem config_file_malformed_counterexample:
  "isfile sample_tcex ''tcex.json'' \<and> open_read sample_tcex ''tcex.json'' = Inr ''{'' \<and>
   json_load sample_tcex ''{'' = Inl ValueError \<and>
   fst (config_file sample_tcex (Some ''tcex.json'') (new_inputs empty_store 1)) = Inl ValueError \<and>
   events (snd (config_file sample_tcex (Some ''tcex.json'') (new_inputs empty_store 1))) = []"
  by (simp add: config_file_def sample_tcex_def json_load_sample_def pbind_def lift_def
      new_inputs_def)

subsection \<open>Merging with \<open>config\<close>\<close>

lemma drop_argv_keys_filter:
  "drop_argv_keys argv ks d = filter (\<lambda>(k, v). \<not> (k \<in> set ks \<and> ''--'' @ k \<in> set argv)) d"
proof (induction ks arbitrary: d)
  case Nil
  show ?case by simp
next
  case (Cons key keys)
  show ?case
  proof (cases "''--'' @ key \<in> set argv")
    case True
    then show ?thesis
      by (simp add: Cons AList.delete_eq del: append.simps) (rule filter_cong, auto)
  next
    case False
    then show ?thesis
      by (simp add: Cons del: append.simps) (rule filter_cong, auto)
  qed
qed

lemma drop_argv_keys_all:
  "drop_argv_keys argv (map fst d) d = filter (\<lambda>(k, v). ''--'' @ k \<notin> set argv) d"
  unfolding drop_argv_keys_filter by (rule filter_cong) force+

lemma register_token_frame:
  "heap (snd (register_token s)) = heap s \<and> default_args (snd (register_token s)) = default_args s"
  by (simp add: register_token_def pbind_def emit_def get_arg_def preturn_def
      split: option.splits)

lemma config_heap:
  "heap (snd (config tc (DictRef a) True s)) =
     (let h1 = (heap s)(a := filter (\<lambda>(k, v). ''--'' @ k \<notin> set (sys_argv tc)) (heap s a))
      in h1(default_args s := dict_update (h1 (default_args s)) (h1 a)))"
  by (simp add: config_def pbind_def set_dict_def namespace_def register_token_frame
      drop_argv_keys_all Let_def)

lemma dict_update_keys: "fst ` set (dict_update d e) = fst ` set d \<union> fst ` set e"
  unfolding dict_update_def
proof (induction e arbitrary: d)
  case Nil
  show ?case by simp
next
  case (Cons p e)
  obtain k v where p: "p = (k, v)" by (cases p)
  have "fst ` set (fold (\<lambda>(k, v). AList.update k v) (p # e) d)
      = fst ` set (AList.update k v d) \<union> fst ` set e"
    by (simp add: p Cons)
  also have "\<dots> = fst ` set d \<union> fst ` set (p # e)"
    by (simp add: p AList.dom_update)
  finally show ?case .
qed

lemma dict_update_other:
  "k \<notin> fst ` set e \<Longrightarrow> map_of (dict_update d e) k = map_of d k"
  unfolding dict_update_def
  by (induction e arbitrary: d) (auto simp: AList.update_conv')

lemma config_keeps_default_args:
  "default_args (snd (config tc (DictRef a) p s)) = default_args s"
  by (simp add: config_def pbind_def set_dict_def register_token_frame preturn_def)

text \<open>
  Claim C10. \<open>config(config_data, preserve=True)\<close> deletes from the dictionary
  object it is given every key \<open>k\<close> for which \<open>--k\<close> is an element of
  \<open>sys.argv\<close>: after the call the caller's dictionary has no such key, and (when
  it is not the namespace itself) it is exactly the old dictionary without these
  keys. This holds whether or not the token registration at the end raises.
\<close>

theorem config_mutates_argument:
  "(\<forall>k. ''--'' @ k \<in> set (sys_argv tc) \<longrightarrow>
        map_of (heap (snd (config tc (DictRef a) True s)) a) k = None) \<and>
   (a \<noteq> default_args s \<longrightarrow>
        heap (snd (config tc (DictRef a) True s)) a =
          filter (\<lambda>(k, v). ''--'' @ k \<notin> set (sys_argv tc)) (heap s a))"
proof (intro conjI allI impI)
  let ?D = "filter (\<lambda>(k, v). ''--'' @ k \<notin> set (sys_argv tc)) (heap s a)"
  fix k assume k: "''--'' @ k \<in> set (sys_argv tc)"
  then have no: "k \<notin> fst ` set ?D" by auto
  show "map_of (heap (snd (config tc (DictRef a) True s)) a) k = None"
  proof (cases "a = default_args s")
    case True
    then have "heap (snd (config tc (DictRef a) True s)) a = dict_update ?D ?D"
      by (simp add: config_heap Let_def)
    moreover from no have "k \<notin> fst ` set (dict_update ?D ?D)"
      by (simp add: dict_update_keys)
    ultimately show ?thesis by (simp add: map_of_eq_None_iff)
  next
    case False
    then have "heap (snd (config tc (DictRef a) True s)) a = ?D"
      by (simp add: config_heap Let_def)
    with no show ?thesis by (simp add: map_of_eq_None_iff)
  qed
next
  assume "a \<noteq> default_args s"
  then show "heap (snd (config tc (DictRef a) True s)) a =
          filter (\<lambda>(k, v). ''--'' @ k \<notin> set (sys_argv tc)) (heap s a)"
    by (simp add: config_heap Let_def)
qed

theorem config_mutates_argument_witness:
  "''--'' @ ''owner'' \<in> set (sys_argv sample_tcex_spaced) \<and>
   heap sample_state 0 = [(''owner'', PStr ''Beta''), (''api_default_org'', PStr ''TCI'')] \<and>
   map_of (heap (snd (config sample_tcex_spaced (DictRef 0) True sample_state)) 0) ''owner'' = None \<and>
   heap (snd (config sample_tcex_spaced (DictRef 0) True sample_state)) 0 =
     [(''api_default_org'', PStr ''TCI'')]"
proof -
  have a: "''--'' @ ''owner'' \<in> set (sys_argv sample_tcex_spaced)"
    by (simp add: sample_tcex_spaced_def)
  have b: "0 \<noteq> default_args sample_state"
    by (simp add: sample_state_def)
  have c: "heap sample_state 0 = [(''owner'', PStr ''Beta''), (''api_default_org'', PStr ''TCI'')]"
    by (simp add: sample_state_def)
  have d: "filter (\<lambda>(k, v). ''--'' @ k \<notin> set (sys_argv sample_tcex_spaced)) (heap sample_state 0)
           = [(''api_default_org'', PStr ''TCI'')]"
    by (simp add: c sample_tcex_spaced_def)
  from config_mutates_argument [of sample_tcex_spaced 0 sample_state] a b
  have "map_of (heap (snd (config sample_tcex_spaced (DictRef 0) True sample_state)) 0) ''owner'' = None"
    and "heap (snd (config sample_tcex_spaced (DictRef 0) True sample_state)) 0 =
          filter (\<lambda>(k, v). ''--'' @ k \<notin> set (sys_argv sample_tcex_spaced)) (heap sample_state 0)"
    by blast+
  with a c d show ?thesis by simp
qed

text \<open>A key given as the argument \<open>--key\<close> keeps its value through the merge.\<close>

lemma config_keeps_exact_flag:
  assumes "''--'' @ k \<in> set (sys_argv tc)" and "a \<noteq> default_args s"
  shows "map_of (namespace (snd (config tc (DictRef a) True s))) k = map_of (namespace s) k"
proof -
  let ?D = "filter (\<lambda>(k, v). ''--'' @ k \<notin> set (sys_argv tc)) (heap s a)"
  from assms(1) have no: "k \<notin> fst ` set ?D" by auto
  have "namespace (snd (config tc (DictRef a) True s)) = dict_update (namespace s) ?D"
    using assms(2) by (simp add: namespace_def config_keeps_default_args config_heap Let_def)
  with no show ?thesis by (simp add: dict_update_other)
qed

lemma dict_update_conv: "map_of (dict_update d e) = map_of d ++ map_of (rev e)"
  unfolding dict_update_def
proof (induction e arbitrary: d)
  case Nil
  show ?case by simp
next
  case (Cons p e)
  obtain k v where p: "p = (k, v)" by (cases p)
  have "map_of (fold (\<lambda>(k, v). AList.update k v) (p # e) d)
      = map_of (AList.update k v d) ++ map_of (rev e)"
    by (simp add: p Cons)
  also have "\<dots> = map_of d ++ map_of (rev (p # e))"
    by (simp add: p AList.update_conv' map_add_upd_left fun_eq_iff map_add_def split: option.splits)
  finally show ?case .
qed

text \<open>A key that is not protected takes the incoming value.\<close>

lemma config_merges_unprotected:
  assumes "''--'' @ k \<notin> set (sys_argv tc)" and "a \<noteq> default_args s"
    and "distinct (map fst (heap s a))" and "map_of (heap s a) k = Some v"
  shows "map_of (namespace (snd (config tc (DictRef a) True s))) k = Some v"
proof -
  let ?D = "filter (\<lambda>(k, v). ''--'' @ k \<notin> set (sys_argv tc)) (heap s a)"
  have ns: "namespace (snd (config tc (DictRef a) True s)) = dict_update (namespace s) ?D"
    using assms(2) by (simp add: namespace_def config_keeps_default_args config_heap Let_def)
  from assms(4) have "(k, v) \<in> set (heap s a)" by (rule map_of_SomeD)
  with assms(1) have "(k, v) \<in> set (rev ?D)" by simp
  moreover have "distinct (map fst (rev ?D))"
    using assms(3) by (simp add: distinct_map_filter rev_map [symmetric])
  ultimately have "map_of (rev ?D) k = Some v" by (rule map_of_is_SomeI [rotated])
  then show ?thesis by (simp add: ns dict_update_conv)
qed

text \<open>
  Claim C1 at the command line \<open>app.py --owner=Acme\<close>: the element of
  \<open>sys.argv\<close> is \<open>--owner=Acme\<close>, not \<open>--owner\<close>, so the key is not dropped and
  a later merge with \<open>preserve=True\<close> replaces the owner given on the command
  line. Started as \<open>app.py --owner Acme\<close>, the same merge keeps it.
\<close>

theorem config_overwrites_equals_form:
  "sys_argv sample_tcex = [''app.py'', ''--owner=Acme''] \<and>
   map_of (namespace sample_state) ''owner'' = Some (PStr ''Acme'') \<and>
   heap sample_state 0 = [(''owner'', PStr ''Beta''), (''api_default_org'', PStr ''TCI'')] \<and>
   fst (config sample_tcex (DictRef 0) True sample_state) = Inr () \<and>
   map_of (namespace (snd (config sample_tcex (DictRef 0) True sample_state))) ''owner'' =
     Some (PStr ''Beta'') \<and>
   map_of (namespace (snd (config sample_tcex_spaced (DictRef 0) True sample_state))) ''owner'' =
     Some (PStr ''Acme'')"
  by code_simp

subsection \<open>Type coercion\<close>

text \<open>A parameter that the descriptor declares as MultiChoice or as allowing multiple values.\<close>

lemma multichoice_string:
  assumes "params_dict tc arg = Some pd" and "dict_get pd ''type'' (PStr []) = PStr t"
    and "py_lower t = ''multichoice'' \<or> to_bool tc (dict_get pd ''allowMultiple'' (PBool False))"
    and "list_delimiter tc \<noteq> []"
  shows "update_param tc arg (PStr s) = Inr (PList (map PStr (split_scan (list_delimiter tc) [] s)))"
  using assms by (auto simp: update_param_def py_split_def Let_def)

lemma multichoice_dict:
  assumes "params_dict tc arg = Some pd" and "dict_get pd ''type'' (PStr []) = PStr t"
    and "py_lower t = ''multichoice'' \<or> to_bool tc (dict_get pd ''allowMultiple'' (PBool False))"
  shows "update_param tc arg (PDict d) = Inr (PDict d)"
  using assms by (auto simp: update_param_def Let_def)

lemma multichoice_list:
  assumes "params_dict tc arg = Some pd" and "dict_get pd ''type'' (PStr []) = PStr t"
    and "py_lower t = ''multichoice'' \<or> to_bool tc (dict_get pd ''allowMultiple'' (PBool False))"
  shows "update_param tc arg (PList xs) = Inl (AttributeError ''split'')"
  using assms by (auto simp: update_param_def Let_def)

text \<open>Boolean coercion is idempotent when \<open>to_bool\<close> leaves booleans as they are.\<close>

lemma boolean_twice:
  assumes "\<And>b. to_bool tc (PBool b) = b"
    and "params_dict tc arg = Some pd" and "dict_get pd ''type'' (PStr []) = PStr t"
    and "py_lower t = ''boolean''" and "\<not> to_bool tc (dict_get pd ''allowMultiple'' (PBool False))"
  shows "update_param tc arg v = Inr (PBool (to_bool tc v)) \<and>
         update_param tc arg (PBool (to_bool tc v)) = Inr (PBool (to_bool tc v))"
  using assms by (auto simp: update_param_def Let_def)

text \<open>
  Claim C2 at the parameter \<open>tags\<close>, declared MultiChoice with the delimiter
  \<open>,\<close>: the first coercion of \<open>"a,b,c"\<close> gives the list of the three pieces; the
  coercion of that result raises \<open>AttributeError\<close>, because the guard before
  \<open>value.split\<close> tests for a \<open>dict\<close> and a list has no \<open>split\<close>.
\<close>

theorem coercion_twice_raises:
  "update_params sample_tcex (PDict [(''tags'', PStr ''a,b,c'')]) =
     Inr [(''tags'', PList [PStr ''a'', PStr ''b'', PStr ''c''])] \<and>
   update_params sample_tcex (PDict [(''tags'', PList [PStr ''a'', PStr ''b'', PStr ''c''])]) =
     Inl (AttributeError ''split'')"
  by code_simp

text \<open>
  Claim C3 at the same parameter: a string is split on the delimiter and a
  dictionary is left as it is, but a value that already is a list raises
  \<open>AttributeError\<close> instead of being left as it is.
\<close>

theorem multichoice_sequence_raises:
  "update_param sample_tcex ''tags'' (PStr ''a,b,c'') =
     Inr (PList [PStr ''a'', PStr ''b'', PStr ''c'']) \<and>
   update_param sample_tcex ''tags'' (PDict [(''a'', PStr ''b'')]) = Inr (PDict [(''a'', PStr ''b'')]) \<and>
   update_param sample_tcex ''tags'' (PList [PStr ''a'', PStr ''b'', PStr ''c'']) =
     Inl (AttributeError ''split'')"
  by code_simp

subsection \<open>The resolved view\<close>

lemma resolve_items_keys:
  assumes "resolve_items tc items s = (Inr (), s')"
  shows "fst ` set (default_args_resolved s') = fst ` set (default_args_resolved s) \<union> fst ` set items
         \<and> heap s' = heap s \<and> default_args s' = default_args s \<and> events s' = events s
         \<and> parsed s' = parsed s"
  using assms
proof (induction items arbitrary: s)
  case Nil
  then show ?case by (simp add: preturn_def)
next
  case (Cons p rest)
  obtain arg arg_val where p: "p = (arg, arg_val)" by (cases p)
  let ?read = "if arg \<notin> set tc_reserved_args
            then (case arg_val of PStr v \<Rightarrow> lift (playbook_read tc v) | _ \<Rightarrow> preturn arg_val)
            else preturn arg_val"
  have frame: "snd (?read s) = s"
    by (auto simp: lift_def preturn_def split: pyval.splits)
  obtain r where r: "?read s = (r, s)"
    using frame by (metis prod.collapse)
  from Cons.prems obtain v where v: "r = Inr v"
    and rest: "resolve_items tc rest (s\<lparr>default_args_resolved :=
                  AList.update arg v (default_args_resolved s)\<rparr>) = (Inr (), s')"
    unfolding p resolve_items.simps
    by (cases r) (simp_all add: pbind_def r)
  from Cons.IH [OF rest] show ?case
    by (auto simp: p AList.dom_update)
qed

lemma pbind_returns_ex:
  "pbind m f s = (Inr y, s2) \<Longrightarrow> \<exists>x s1. m s = (Inr x, s1) \<and> f x s1 = (Inr y, s2)"
  by (auto simp: pbind_def split: prod.splits sum.splits)

lemma resolved_args_returned:
  assumes "resolved_args tc parse s = (Inr r, s')"
  shows "(\<not> parsed_resolved s \<or> parse \<longrightarrow>
            fst ` set (default_args_resolved s') = fst ` set (namespace s') \<and> parsed_resolved s') \<and>
         (parsed_resolved s \<and> \<not> parse \<longrightarrow> s' = s) \<and>
         r = default_args_resolved s'"
proof (cases "\<not> parsed_resolved s \<or> parse")
  case False
  with assms show ?thesis
    by (auto simp: resolved_args_def pbind_def preturn_def)
next
  case True
  let ?reset = "\<lambda>s::inputs. (Inr () :: exn + unit, s\<lparr>default_args_resolved := []\<rparr>)"
  let ?loop = "\<lambda>s. resolve_items tc (namespace s) s"
  let ?done = "\<lambda>s::inputs. (Inr () :: exn + unit, s\<lparr>parsed_resolved := True\<rparr>)"
  let ?body = "pbind (args tc False) (\<lambda>_. pbind ?reset (\<lambda>_. pbind ?loop (\<lambda>_. ?done)))"
  have unfold: "resolved_args tc parse s =
      pbind ?body (\<lambda>_ s. (Inr (default_args_resolved s), s)) s"
    using True by (simp add: resolved_args_def pbind_def)
  from pbind_returns_ex [OF assms [unfolded unfold]]
  obtain u s4 where body: "?body s = (Inr u, s4)"
    and ret: "(Inr (default_args_resolved s4), s4) = (Inr r, s')"
    by blast
  from pbind_returns_ex [OF body]
  obtain ns s1 where "args tc False s = (Inr ns, s1)"
    and b1: "pbind ?reset (\<lambda>_. pbind ?loop (\<lambda>_. ?done)) s1 = (Inr u, s4)"
    by blast
  from pbind_returns_ex [OF b1]
  obtain u2 s2 where s2: "?reset s1 = (Inr u2, s2)"
    and b2: "pbind ?loop (\<lambda>_. ?done) s2 = (Inr u, s4)"
    by blast
  from pbind_returns_ex [OF b2]
  obtain u3 s3 where loop: "?loop s2 = (Inr u3, s3)" and fin: "?done s3 = (Inr u, s4)"
    by blast
  from s2 have r2: "default_args_resolved s2 = []" by auto
  from loop have "resolve_items tc (namespace s2) s2 = (Inr (), s3)" by simp
  from resolve_items_keys [OF this] r2
  have keys: "fst ` set (default_args_resolved s3) = fst ` set (namespace s2)"
    and same: "namespace s3 = namespace s2"
    by (simp_all add: namespace_def)
  from fin have s4: "s4 = s3\<lparr>parsed_resolved := True\<rparr>" by simp
  from ret have "s' = s4" "r = default_args_resolved s4" by auto
  with s4 keys same True show ?thesis by (auto simp: namespace_def)
qed

lemma resolve_items_subset:
  assumes "resolve_items tc items s = (r, s')"
  shows "fst ` set (default_args_resolved s') \<subseteq> fst ` set (default_args_resolved s) \<union> fst ` set items
         \<and> heap s' = heap s \<and> default_args s' = default_args s"
  using assms
proof (induction items arbitrary: s)
  case Nil
  then show ?case by (auto simp: preturn_def)
next
  case (Cons p rest)
  obtain arg arg_val where p: "p = (arg, arg_val)" by (cases p)
  let ?read = "if arg \<notin> set tc_reserved_args
            then (case arg_val of PStr v \<Rightarrow> lift (playbook_read tc v) | _ \<Rightarrow> preturn arg_val)
            else preturn arg_val"
  have frame: "snd (?read s) = s"
    by (auto simp: lift_def preturn_def split: pyval.splits)
  obtain r0 where r0: "?read s = (r0, s)"
    using frame by (metis prod.collapse)
  show ?case
  proof (cases r0)
    case (Inl e)
    with Cons.prems r0 have "s' = s"
      unfolding p resolve_items.simps by (simp add: pbind_def)
    then show ?thesis by auto
  next
    case (Inr v)
    with Cons.prems r0 have "resolve_items tc rest (s\<lparr>default_args_resolved :=
                  AList.update arg v (default_args_resolved s)\<rparr>) = (r, s')"
      unfolding p resolve_items.simps by (simp add: pbind_def)
    from Cons.IH [OF this] show ?thesis
      by (auto simp: p AList.dom_update)
  qed
qed

lemma resolved_args_subset:
  assumes "\<not> parsed_resolved s \<or> parse" and "args tc False s = (Inr ns, s1)"
  shows "fst ` set (default_args_resolved (snd (resolved_args tc parse s)))
           \<subseteq> fst ` set (namespace (snd (resolved_args tc parse s)))"
proof -
  let ?s2 = "s1\<lparr>default_args_resolved := []\<rparr>"
  obtain r3 s3 where loop: "resolve_items tc (namespace ?s2) ?s2 = (r3, s3)"
    by (cases "resolve_items tc (namespace ?s2) ?s2")
  from resolve_items_subset [OF loop]
  have keys: "fst ` set (default_args_resolved s3) \<subseteq> fst ` set (namespace ?s2)"
    and same: "namespace s3 = namespace ?s2"
    by (simp_all add: namespace_def)
  have "snd (resolved_args tc parse s) = s3 \<or>
        snd (resolved_args tc parse s) = s3\<lparr>parsed_resolved := True\<rparr>"
    using assms loop
    by (cases r3) (simp_all add: resolved_args_def pbind_def)
  then show ?thesis
  proof
    assume "snd (resolved_args tc parse s) = s3"
    with keys same show ?thesis by simp
  next
    assume "snd (resolved_args tc parse s) = s3\<lparr>parsed_resolved := True\<rparr>"
    moreover have "namespace (s3\<lparr>parsed_resolved := True\<rparr>) = namespace s3"
      by (simp add: namespace_def)
    ultimately show ?thesis using keys same by simp
  qed
qed

text \<open>
  Claim C6. When \<open>resolved_args\<close> resolves (nothing is cached, or \<open>parse\<close> is
  set) and returns, the resolved namespace it returns has exactly the keys of the
  raw namespace of that moment; when it answers from the cache, it changes nothing.
  Once \<open>args\<close> has returned, the resolved namespace never holds a key that the
  raw namespace has not, even when reading a value through the playbook raises in
  the middle of the loop.
\<close>

theorem resolved_args_keys:
  "(resolved_args tc parse s = (Inr r, s') \<longrightarrow>
      (\<not> parsed_resolved s \<or> parse \<longrightarrow>
         fst ` set (default_args_resolved s') = fst ` set (namespace s') \<and> parsed_resolved s') \<and>
      (parsed_resolved s \<and> \<not> parse \<longrightarrow> s' = s) \<and>
      r = default_args_resolved s') \<and>
   ((\<not> parsed_resolved s \<or> parse) \<and> args tc False s = (Inr ns, s1) \<longrightarrow>
      fst ` set (default_args_resolved (snd (resolved_args tc parse s)))
        \<subseteq> fst ` set (namespace (snd (resolved_args tc parse s))))"
  using resolved_args_returned [of tc parse s r s'] resolved_args_subset [of s parse tc ns s1]
  by blast

theorem resolved_args_keys_witness:
  "fst (resolved_args sample_tcex False sample_state) =
     Inr [(''owner'', PStr ''Acme''), (''tc_token'', PStr ''T0KEN''),
          (''tc_token_expires'', PStr ''1700000000''), (''tc_out_path'', PStr ''out''),
          (''tc_aot_enabled'', PBool False), (''tc_secure_params'', PBool True),
          (''tc_svc_client_topic'', PNone)] \<and>
   fst ` set (default_args_resolved (snd (resolved_args sample_tcex False sample_state))) =
     fst ` set (namespace (snd (resolved_args sample_tcex False sample_state))) \<and>
   parsed_resolved (snd (resolved_args sample_tcex False sample_state))"
proof -
  let ?run = "resolved_args sample_tcex False sample_state"
  let ?r = "[(''owner'', PStr ''Acme''), (''tc_token'', PStr ''T0KEN''),
          (''tc_token_expires'', PStr ''1700000000''), (''tc_out_path'', PStr ''out''),
          (''tc_aot_enabled'', PBool False), (''tc_secure_params'', PBool True),
          (''tc_svc_client_topic'', PNone)]"
  have r: "fst ?run = Inr ?r"
    by code_simp
  then have run: "?run = (Inr ?r, snd ?run)"
    by (metis prod.collapse)
  have "fst (args sample_tcex False sample_state) = Inr ?r"
    by code_simp
  then have a: "args sample_tcex False sample_state = (Inr ?r, snd (args sample_tcex False sample_state))"
    by (metis prod.collapse)
  have "\<not> parsed_resolved sample_state"
    by (simp add: sample_state_def)
  with resolved_args_keys [of sample_tcex False sample_state ?r "snd ?run" ?r
      "snd (args sample_tcex False sample_state)"] run a r
  show ?thesis by simp
qed

end
